(* ===== verification/Prelude.thy ===== *)
theory Prelude
  imports Main "HOL-Library.Word" "HOL-Library.Monad_Syntax"
begin

text \<open>
  The process state shared by every component of minicrypt: a block heap for
  \<open>malloc\<close>, \<open>calloc\<close>, \<open>free\<close>, \<open>memset\<close> and \<open>memcpy\<close>, and the operating
  system resources the tool touches (standard input and output, the file system).
  A pointer is a natural number, \<open>0\<close> is \<open>NULL\<close>, and every pointer the program
  passes around is the base of a block, so two pointers alias exactly when they are
  equal. Undefined behaviour (a read or write outside a live block, freeing a pointer
  that is not live) is the value \<open>None\<close> of the option monad. Allocation may fail:
  the \<open>n\<close>-th allocation request of the run fails when \<open>alloc_fails n\<close> holds.
  Every block that is released is logged with its contents at the moment of
  release, so that what \<open>free\<close> leaves behind in memory can be stated.
\<close>

type_synonym byte = "8 word"
type_synonym ptr = nat

record machine =
  blocks :: "ptr \<rightharpoonup> byte list"
  next_addr :: ptr
  alloc_count :: nat
  alloc_fails :: "nat \<Rightarrow> bool"
  freed :: "byte list list"
  stdin_rest :: "byte list"
  stdout_data :: "byte list"
  fs :: "byte list \<rightharpoonup> byte list"
  fs_writable :: "byte list \<Rightarrow> bool"

named_theorems mem_simps "evaluation rules of the heap primitives"

subsection \<open>Heap primitives\<close>

text \<open>
  \<open>alloc_addr\<close> is the allocator's decision: \<open>0\<close> when the request fails, a fresh
  address otherwise. \<open>malloc\<close> and \<open>calloc\<close> both hand out a zero-filled block:
  the contents of a fresh \<open>malloc\<close> block are never read by minicrypt before they are
  written, so the choice of zeros is not observable.
\<close>

definition alloc_addr :: "'a machine_scheme \<Rightarrow> ptr \<times> 'a machine_scheme" where
  "alloc_addr m =
     (if alloc_fails m (alloc_count m) then (0, m\<lparr>alloc_count := Suc (alloc_count m)\<rparr>)
      else (next_addr m, m\<lparr>next_addr := Suc (next_addr m), alloc_count := Suc (alloc_count m)\<rparr>))"

definition malloc :: "nat \<Rightarrow> 'a machine_scheme \<Rightarrow> ptr \<times> 'a machine_scheme" where
  "malloc n m =
     (let (p, m1) = alloc_addr m
      in if p = 0 then (0, m1) else (p, m1\<lparr>blocks := (blocks m1)(p \<mapsto> replicate n 0)\<rparr>))"

definition load :: "'a machine_scheme \<Rightarrow> ptr \<Rightarrow> nat \<Rightarrow> byte option" where
  "load m p i =
     (case blocks m p of
        None \<Rightarrow> None
      | Some bs \<Rightarrow> if i < length bs then Some (bs ! i) else None)"

definition store :: "ptr \<Rightarrow> nat \<Rightarrow> byte \<Rightarrow> 'a machine_scheme \<Rightarrow> 'a machine_scheme option" where
  "store p i v m =
     (case blocks m p of
        None \<Rightarrow> None
      | Some bs \<Rightarrow> if i < length bs then Some (m\<lparr>blocks := (blocks m)(p \<mapsto> bs[i := v])\<rparr>) else None)"

text \<open>\<open>free(NULL)\<close> does nothing; freeing anything else that is not a live block is
  undefined.\<close>

definition free :: "ptr \<Rightarrow> 'a machine_scheme \<Rightarrow> 'a machine_scheme option" where
  "free p m =
     (if p = 0 then Some m
      else case blocks m p of
        None \<Rightarrow> None
      | Some bs \<Rightarrow> Some (m\<lparr>blocks := (blocks m)(p := None), freed := freed m @ [bs]\<rparr>))"

text \<open>\<open>memset(p, v, n)\<close> and \<open>memcpy(d, s, n)\<close> on whole blocks from offset 0; a
  length of 0 touches nothing.\<close>

definition memset :: "ptr \<Rightarrow> byte \<Rightarrow> nat \<Rightarrow> 'a machine_scheme \<Rightarrow> 'a machine_scheme option" where
  "memset p v n m =
     (if n = 0 then Some m
      else case blocks m p of
        None \<Rightarrow> None
      | Some bs \<Rightarrow> if n \<le> length bs
                   then Some (m\<lparr>blocks := (blocks m)(p \<mapsto> replicate n v @ drop n bs)\<rparr>)
                   else None)"

definition memcpy :: "ptr \<Rightarrow> ptr \<Rightarrow> nat \<Rightarrow> 'a machine_scheme \<Rightarrow> 'a machine_scheme option" where
  "memcpy d s n m =
     (if n = 0 then Some m
      else case (blocks m d, blocks m s) of
        (Some db, Some sb) \<Rightarrow>
          if n \<le> length db \<and> n \<le> length sb
          then Some (m\<lparr>blocks := (blocks m)(d \<mapsto> take n sb @ drop n db)\<rparr>)
          else None
      | _ \<Rightarrow> None)"

text \<open>\<open>memcpy(d, s, n)\<close> from a source outside the heap (an element of \<open>argv\<close>,
  given as its bytes).\<close>

definition memcpy_from :: "ptr \<Rightarrow> byte list \<Rightarrow> nat \<Rightarrow> 'a machine_scheme \<Rightarrow> 'a machine_scheme option" where
  "memcpy_from d src n m =
     (if n = 0 then Some m
      else case blocks m d of
        None \<Rightarrow> None
      | Some db \<Rightarrow> if n \<le> length db \<and> n \<le> length src
                   then Some (m\<lparr>blocks := (blocks m)(d \<mapsto> take n src @ drop n db)\<rparr>)
                   else None)"

text \<open>An array local to a function: a fresh block the allocator does not account
  for (it cannot fail), released without a trace when the function returns. Its
  initial contents are never read before they are written.\<close>

definition stack_alloc :: "nat \<Rightarrow> 'a machine_scheme \<Rightarrow> ptr \<times> 'a machine_scheme" where
  "stack_alloc n m =
     (next_addr m, m\<lparr>next_addr := Suc (next_addr m), blocks := (blocks m)(next_addr m \<mapsto> replicate n 0)\<rparr>)"

definition stack_release :: "ptr \<Rightarrow> 'a machine_scheme \<Rightarrow> 'a machine_scheme" where
  "stack_release p m = m\<lparr>blocks := (blocks m)(p := None)\<rparr>"

text \<open>
  \<open>fgetc(stdin)\<close> returns the next byte of standard input as an \<open>int\<close> in
  \<open>0..255\<close>, or \<open>EOF\<close> (\<open>-1\<close>) once the input is exhausted. I/O errors are not
  modelled.
\<close>

definition EOF :: int where
  "EOF = -1"

definition fgetc :: "'a machine_scheme \<Rightarrow> int \<times> 'a machine_scheme" where
  "fgetc m =
     (case stdin_rest m of
        [] \<Rightarrow> (EOF, m)
      | c # cs \<Rightarrow> (uint c, m\<lparr>stdin_rest := cs\<rparr>))"

text \<open>The C string that starts a live block: its bytes up to the first NUL. A block
  without a terminator is read past its end (\<open>None\<close>).\<close>

definition load_cstr :: "'a machine_scheme \<Rightarrow> ptr \<Rightarrow> byte list option" where
  "load_cstr m p =
     (case blocks m p of
        None \<Rightarrow> None
      | Some bs \<Rightarrow> if 0 \<in> set bs then Some (takeWhile (\<lambda>c. c \<noteq> 0) bs) else None)"

text \<open>A heap is well formed when every live block lies below the next fresh address
  and \<open>NULL\<close> is never a block.\<close>

definition heap_wf :: "'a machine_scheme \<Rightarrow> bool" where
  "heap_wf m \<longleftrightarrow> 0 < next_addr m \<and> 0 \<notin> dom (blocks m) \<and> dom (blocks m) \<subseteq> {..<next_addr m}"

subsection \<open>Generic lemmas on lists, options and words\<close>

lemma take_upd_drop_Suc [simp]:
  "i < length xs \<Longrightarrow> take i xs @ v # drop (Suc i) xs = xs[i := v]"
  by (simp add: upd_conv_take_nth_drop)

lemma nth_drop_take_hd:
  "i < length xs \<Longrightarrow> take (Suc n) (drop i xs) = xs ! i # take n (drop (Suc i) xs)"
  by (simp add: Cons_nth_drop_Suc [symmetric])

text \<open>A cursor that stays inside a buffer of length \<open>n\<close> when advanced modulo \<open>n\<close>.\<close>

lemma Suc_mod_less [simp]: "i < (n::nat) \<Longrightarrow> Suc i mod n < n"
  by simp

text \<open>The C expression \<open>(a + b) % 256\<close> on two \<open>uint8_t\<close> operands, promoted to
  \<open>int\<close> and truncated back on assignment, is byte addition.\<close>

lemma byte_add_mod_256 [simp]:
  "(word_of_nat ((unat (a::byte) + unat (b::byte)) mod 256) :: byte) = a + b"
proof -
  have "(unat a + unat b) mod 256 = unat (a + b)"
    by (simp add: unat_word_ariths)
  then show ?thesis by simp
qed

lemma unat_byte_lt [simp]: "unat (b::byte) < 256"
proof -
  have "unat b < 2 ^ LENGTH(8)" by (rule unsigned_less)
  then show ?thesis by simp
qed

lemma ucast_byte_nz: "0 < unat (x::byte) \<Longrightarrow> (ucast x :: 16 word) \<noteq> 0"
proof -
  assume "0 < unat x"
  moreover have "unat x < 2 ^ 16" by (rule less_trans [OF unat_byte_lt]) simp
  ultimately show ?thesis by (simp add: unat_eq_zero [symmetric] unsigned_ucast_eq take_bit_nat_eq_self)
qed

lemma unat_of_nat_mod_less [simp]:
  "k \<le> 256 \<Longrightarrow> n < k \<Longrightarrow> unat (word_of_nat n :: byte) = n"
  by (simp add: unat_of_nat)

lemma takeWhile_take: "takeWhile P (take r xs) = take r (takeWhile P xs)"
  by (induction xs arbitrary: r) (auto simp: take_Cons')

lemma takeWhile_split_at:
  "r \<le> length (takeWhile P xs) \<Longrightarrow> takeWhile P xs = take r xs @ takeWhile P (drop r xs)"
proof -
  assume r: "r \<le> length (takeWhile P xs)"
  have "\<forall>x\<in>set (take r xs). P x"
  proof
    fix x assume "x \<in> set (take r xs)"
    moreover have "take r xs = take r (takeWhile P xs)"
      using r by (metis append_eq_conv_conj takeWhile_dropWhile_id take_append diff_is_0_eq take0 append_Nil2)
    ultimately show "P x" by (metis in_set_takeD set_takeWhileD)
  qed
  then show ?thesis by (metis append_take_drop_id takeWhile_append2)
qed

lemma heap_wf_live_below: "heap_wf m \<Longrightarrow> blocks m p = Some bs \<Longrightarrow> 0 < p \<and> p < next_addr m"
  by (auto simp: heap_wf_def)

lemma takeWhile_cstr [simp]: "0 \<notin> set p \<Longrightarrow> takeWhile (\<lambda>c. c \<noteq> 0) (p @ [0]) = p"
  by (subst takeWhile_append2) auto

lemma nth_concat_replicate_pair:
  "k < 2 * n \<Longrightarrow> concat (replicate n [x, y]) ! k = (if even k then x else y)"
proof (induction n arbitrary: k)
  case 0
  then show ?case by simp
next
  case (Suc n)
  show ?case
  proof (cases "k < 2")
    case True
    then show ?thesis by (cases k) (auto simp: nth_Cons')
  next
    case False
    then have "concat (replicate (Suc n) [x, y]) ! k = concat (replicate n [x, y]) ! (k - 2)"
      by (simp add: nth_append numeral_2_eq_2)
    with Suc False show ?thesis by simp
  qed
qed

lemma length_concat_replicate_pair: "length (concat (replicate n [x, y])) = 2 * n"
  by (induction n) simp_all

lemma odd_unat_plus_2: "odd (unat (b :: 8 word)) \<Longrightarrow> odd (unat (b + 2))"
proof -
  assume o: "odd (unat b)"
  have "unat (b + 2) = (unat b + 2) mod 256" by (simp add: unat_word_ariths)
  moreover have "odd ((unat b + 2) mod 256)" using o by (simp add: odd_iff_mod_2_eq_one mod_mod_cancel)
  ultimately show ?thesis by simp
qed

subsection \<open>Evaluation rules of the primitives\<close>

lemma load_Some [mem_simps]:
  "blocks m p = Some bs \<Longrightarrow> i < length bs \<Longrightarrow> load m p i = Some (bs ! i)"
  by (simp add: load_def)

lemma store_Some [mem_simps]:
  "blocks m p = Some bs \<Longrightarrow> i < length bs \<Longrightarrow>
   store p i v m = Some (m\<lparr>blocks := (blocks m)(p \<mapsto> bs[i := v])\<rparr>)"
  by (simp add: store_def)

lemma store_eq_Some_iff:
  "store p i v m = Some m' \<longleftrightarrow>
   (\<exists>bs. blocks m p = Some bs \<and> i < length bs \<and> m' = m\<lparr>blocks := (blocks m)(p \<mapsto> bs[i := v])\<rparr>)"
  by (auto simp: store_def split: option.splits if_splits)

lemma load_eq_Some_iff:
  "load m p i = Some v \<longleftrightarrow> (\<exists>bs. blocks m p = Some bs \<and> i < length bs \<and> v = bs ! i)"
  by (auto simp: load_def split: option.splits if_splits)

lemma free_Some [mem_simps]:
  "blocks m p = Some bs \<Longrightarrow> 0 < p \<Longrightarrow>
   free p m = Some (m\<lparr>blocks := (blocks m)(p := None), freed := freed m @ [bs]\<rparr>)"
  by (simp add: free_def)

lemma memset_Some [mem_simps]:
  "blocks m p = Some bs \<Longrightarrow> n \<le> length bs \<Longrightarrow>
   memset p v n m = Some (m\<lparr>blocks := (blocks m)(p \<mapsto> replicate n v @ drop n bs)\<rparr>)"
  by (cases "n = 0") (simp_all add: memset_def map_upd_triv)

lemma memcpy_Some [mem_simps]:
  "blocks m d = Some db \<Longrightarrow> blocks m s = Some sb \<Longrightarrow> n \<le> length db \<Longrightarrow> n \<le> length sb \<Longrightarrow>
   memcpy d s n m = Some (m\<lparr>blocks := (blocks m)(d \<mapsto> take n sb @ drop n db)\<rparr>)"
  by (cases "n = 0") (simp_all add: memcpy_def map_upd_triv)

lemma alloc_addr_cases:
  "alloc_addr m = (p, m') \<Longrightarrow>
     alloc_count m' = Suc (alloc_count m) \<and> blocks m' = blocks m \<and> freed m' = freed m \<and>
     (p = 0 \<and> next_addr m' = next_addr m \<or> p = next_addr m \<and> next_addr m' = Suc (next_addr m))"
  by (auto simp: alloc_addr_def split: if_splits)

lemma malloc_fresh:
  assumes "malloc n m = (p, m')" "heap_wf m" "p \<noteq> 0"
  shows "p \<notin> dom (blocks m)" and "blocks m' = (blocks m)(p \<mapsto> replicate n 0)"
    and "heap_wf m'" and "freed m' = freed m"
proof -
  obtain q m1 where a: "alloc_addr m = (q, m1)" by fastforce
  with assms(1,3) have q: "q = p" and m': "m' = m1\<lparr>blocks := (blocks m1)(p \<mapsto> replicate n 0)\<rparr>"
    by (auto simp: malloc_def split: if_splits)
  from alloc_addr_cases [OF a] q assms(3)
  have "p = next_addr m" "next_addr m1 = Suc (next_addr m)" "blocks m1 = blocks m" "freed m1 = freed m"
    by auto
  with assms(2) m' show "p \<notin> dom (blocks m)" "blocks m' = (blocks m)(p \<mapsto> replicate n 0)"
    "heap_wf m'" "freed m' = freed m"
    by (auto simp: heap_wf_def)
qed

lemma malloc_fail:
  "malloc n m = (0, m') \<Longrightarrow> blocks m' = blocks m \<and> freed m' = freed m"
  by (auto simp: malloc_def alloc_addr_def split: if_splits)

lemma malloc_ok:
  "heap_wf m \<Longrightarrow> \<not> alloc_fails m (alloc_count m) \<Longrightarrow>
   malloc n m = (next_addr m, m\<lparr>next_addr := Suc (next_addr m), alloc_count := Suc (alloc_count m),
                                 blocks := (blocks m)(next_addr m \<mapsto> replicate n 0)\<rparr>)"
  by (simp add: malloc_def alloc_addr_def heap_wf_def)

end
