(* ===== verification/CryptProv.thy ===== *)
theory CryptProv
  imports Prelude
begin

unbundle bit_operations_syntax

text \<open>
  The key context and the stream transform engine of \<open>libcryptprov\<close>
  (\<open>src/include/libcryptprov.h\<close>, \<open>src/src/libcryptprov/libcryptprov.c\<close>).
  A \<open>struct crypt_context\<close> lives in the typed object store \<open>ctxs\<close> that extends
  the process state; its key buffer is a block of the heap. The operations are
  \<open>crypt_alloc_context\<close>, \<open>crypt_free_context\<close> and \<open>crypt_buffer\<close> with its loop
  \<open>crypt_loop\<close>. The list function \<open>crypt_bytes\<close> is the algorithm of the
  specification, and \<open>crypt_loop\<close> is proved to refine it.
\<close>

subsection \<open>Constants, error codes and the context record\<close>

definition CRYPT_VERSION :: "64 word" where
  "CRYPT_VERSION = 1"

definition CRYPT_VERSION_STRING :: string where
  "CRYPT_VERSION_STRING = ''v0.1''"

definition CRYPT_MAX_KEY_LEN :: byte where
  "CRYPT_MAX_KEY_LEN = 255"

definition CRYPT_MAX_BUFFER_SIZE :: "32 word" where
  "CRYPT_MAX_BUFFER_SIZE = 65535"

datatype crypt_error =
    CRYPT_ERROR_OK
  | CRYPT_ERROR_NO_MEMORY
  | CRYPT_ERROR_PARAMETER
  | CRYPT_ERROR_ALREADY_RUNNING

text \<open>The numeric values of the anonymous enum, as returned through the
  \<open>int32_t\<close> and \<open>uint32_t\<close> results.\<close>

primrec crypt_error_code :: "crypt_error \<Rightarrow> 32 word" where
  "crypt_error_code CRYPT_ERROR_OK = 0"
| "crypt_error_code CRYPT_ERROR_NO_MEMORY = 1"
| "crypt_error_code CRYPT_ERROR_PARAMETER = 2"
| "crypt_error_code CRYPT_ERROR_ALREADY_RUNNING = 3"

record crypt_context =
  version :: "64 word"
  version_string :: "string option"
  key :: ptr
  key_size :: "16 word"
  key_state :: byte

record prov_state = machine +
  ctxs :: "ptr \<rightharpoonup> crypt_context"

definition crypt_get_version_long :: "64 word" where
  "crypt_get_version_long = CRYPT_VERSION"

definition crypt_get_version_string :: string where
  "crypt_get_version_string = CRYPT_VERSION_STRING"

text \<open>A context as \<open>calloc\<close> returns it: every field zero, every pointer \<open>NULL\<close>.\<close>

definition ctx_zero :: crypt_context where
  "ctx_zero = \<lparr>version = 0, version_string = None, key = 0, key_size = 0, key_state = 0\<rparr>"

text \<open>Writing fields of the context at \<open>c\<close>; nothing happens when \<open>c\<close> is not live.\<close>

definition ctx_upd :: "ptr \<Rightarrow> (crypt_context \<Rightarrow> crypt_context) \<Rightarrow>
    'a prov_state_scheme \<Rightarrow> 'a prov_state_scheme" where
  "ctx_upd c f s = s\<lparr>ctxs := (ctxs s)(c := map_option f (ctxs s c))\<rparr>"

subsection \<open>\<open>crypt_alloc_context\<close>\<close>

text \<open>
  \<open>ctx_out\<close> says whether the out-pointer is non-\<open>NULL\<close>; the second component of
  the result is the pointer written through it, if any. The key is copied from the
  caller's block \<open>key_p\<close>; a block shorter than \<open>key_size\<close> is an out-of-bounds
  read (\<open>None\<close>).
\<close>

definition crypt_alloc_context :: "bool \<Rightarrow> ptr \<Rightarrow> byte \<Rightarrow> 'a prov_state_scheme \<Rightarrow>
    (crypt_error \<times> ptr option \<times> 'a prov_state_scheme) option" where
  "crypt_alloc_context ctx_out key_p key_sz s =
     (if \<not> ctx_out \<or> key_p = 0 \<or> key_sz \<ge> CRYPT_MAX_KEY_LEN
      then Some (CRYPT_ERROR_PARAMETER, None, s)
      else
        let (c, s1) = alloc_addr s
        in if c = 0 then Some (CRYPT_ERROR_NO_MEMORY, None, s1)
        else
          let s2 = s1\<lparr>ctxs := (ctxs s1)(c \<mapsto> ctx_zero)\<rparr>;
              s3 = ctx_upd c (\<lambda>cx. cx\<lparr>version := crypt_get_version_long,
                                       version_string := Some crypt_get_version_string\<rparr>) s2;
              (k, s4) = malloc (unat key_sz) s3;
              s5 = ctx_upd c (\<lambda>cx. cx\<lparr>key := k\<rparr>) s4
          in if k = 0 then Some (CRYPT_ERROR_NO_MEMORY, None, s5\<lparr>ctxs := (ctxs s5)(c := None)\<rparr>)
          else do {
            s6 \<leftarrow> memcpy k key_p (unat key_sz) s5;
            let s7 = ctx_upd c (\<lambda>cx. cx\<lparr>key_size := ucast key_sz, key_state := 0\<rparr>) s6;
            Some (CRYPT_ERROR_OK, Some c, s7)
          })"

subsection \<open>\<open>crypt_free_context\<close>\<close>

text \<open>Zero the key buffer, free it, zero the struct and free it. A pointer that is
  not a live context is undefined behaviour.\<close>

definition crypt_free_context :: "ptr \<Rightarrow> 'a prov_state_scheme \<Rightarrow> 'a prov_state_scheme option" where
  "crypt_free_context c s =
     (if c = 0 then Some s
      else case ctxs s c of
        None \<Rightarrow> None
      | Some cx \<Rightarrow> do {
          s1 \<leftarrow> memset (key cx) 0 (unat (key_size cx)) s;
          s2 \<leftarrow> free (key cx) s1;
          let s3 = s2\<lparr>ctxs := (ctxs s2)(c \<mapsto> ctx_zero)\<rparr>;
          Some (s3\<lparr>ctxs := (ctxs s3)(c := None)\<rparr>)
        })"

subsection \<open>\<open>crypt_buffer\<close> and its loop\<close>

text \<open>
  One iteration of the \<open>for\<close> loop of \<open>crypt_buffer\<close>: the key byte at the
  cursor \<open>i\<close> is bumped by \<open>i\<close> (the \<open>int\<close> sum reduced \<open>% 256\<close> and stored in
  a \<open>uint8_t\<close>), the output byte is the input byte XOR the new key byte, and the
  cursor advances modulo the key size. Input and output are read and written
  through the heap in the order of the source, so an output block equal to the
  input block (the in-place call) is modelled as it runs.
\<close>

function crypt_loop :: "ptr \<Rightarrow> ptr \<Rightarrow> ptr \<Rightarrow> byte \<Rightarrow> nat \<Rightarrow> byte \<Rightarrow> nat \<Rightarrow>
    'a machine_scheme \<Rightarrow> (byte \<times> 'a machine_scheme) option" where
  "crypt_loop kp out inp ks len i pos m =
     (if pos < len then do {
        k \<leftarrow> load m kp (unat i);
        m1 \<leftarrow> store kp (unat i) (word_of_nat ((unat k + unat i) mod 256)) m;
        x \<leftarrow> load m1 inp pos;
        k' \<leftarrow> load m1 kp (unat i);
        m2 \<leftarrow> store out pos (x XOR k') m1;
        crypt_loop kp out inp ks len (word_of_nat ((unat i + 1) mod unat ks)) (Suc pos) m2
      }
      else Some (i, m))"
  by pat_completeness auto
termination
  by (relation "measure (\<lambda>(kp, out, inp, ks, len, i, pos, m). len - pos)") auto

declare crypt_loop.simps [simp del]

definition crypt_buffer :: "ptr \<Rightarrow> ptr \<Rightarrow> ptr \<Rightarrow> 32 word \<Rightarrow> 'a prov_state_scheme \<Rightarrow>
    (32 word \<times> 'a prov_state_scheme) option" where
  "crypt_buffer c out inp len s =
     (if c = 0 \<or> out = 0 \<or> inp = 0 \<or> len = 0
      then Some (crypt_error_code CRYPT_ERROR_PARAMETER, s)
      else case ctxs s c of
        None \<Rightarrow> None
      | Some cx \<Rightarrow>
          if key cx = 0 \<or> key_size cx = 0 then Some (crypt_error_code CRYPT_ERROR_PARAMETER, s)
          else if len > CRYPT_MAX_BUFFER_SIZE \<or> key_size cx \<ge> ucast CRYPT_MAX_KEY_LEN
          then Some (crypt_error_code CRYPT_ERROR_NO_MEMORY, s)
          else do {
            (i, s') \<leftarrow> crypt_loop (key cx) out inp (ucast (key_size cx)) (unat len) (key_state cx) 0 s;
            Some (len, ctx_upd c (\<lambda>cx. cx\<lparr>key_state := i\<rparr>) s')
          })"

subsection \<open>Well-formedness of the state and the context invariant\<close>

text \<open>Live contexts, like live blocks, sit at non-\<open>NULL\<close> addresses below the next
  fresh one.\<close>

definition prov_wf :: "'a prov_state_scheme \<Rightarrow> bool" where
  "prov_wf s \<longleftrightarrow> heap_wf s \<and> 0 \<notin> dom (ctxs s) \<and> dom (ctxs s) \<subseteq> {..<next_addr s}"

text \<open>
  The invariant of a live context (specification, section 3): its key buffer is a
  live block of exactly \<open>key_size\<close> bytes, \<open>key_size\<close> is below
  \<open>CRYPT_MAX_KEY_LEN\<close>, and the cursor \<open>key_state\<close> is a valid index into the key
  (or 0 for the empty key that \<open>crypt_alloc_context\<close> accepts).
\<close>

definition ctx_inv :: "'a prov_state_scheme \<Rightarrow> ptr \<Rightarrow> bool" where
  "ctx_inv s c \<longleftrightarrow>
     (case ctxs s c of
        None \<Rightarrow> False
      | Some cx \<Rightarrow>
          0 < key cx \<and> key_size cx < 255 \<and> unat (key_state cx) < max 1 (unat (key_size cx)) \<and>
          (case blocks s (key cx) of
             None \<Rightarrow> False
           | Some kb \<Rightarrow> length kb = unat (key_size cx)))"

subsection \<open>Example states\<close>

text \<open>A heap holding a caller key \<open>''AB''\<close> at 1, buffers at 2, 5 and 8, and three
  contexts: at 3 and 7 two fresh contexts keyed with \<open>''AB''\<close> (key blocks 4 and 6), at 9
  a context with the empty key that \<open>crypt_alloc_context\<close> accepts.\<close>

definition demo_ctx :: "ptr \<Rightarrow> 16 word \<Rightarrow> crypt_context" where
  "demo_ctx k n = \<lparr>version = CRYPT_VERSION, version_string = Some CRYPT_VERSION_STRING,
                    key = k, key_size = n, key_state = 0\<rparr>"

definition demo_state :: prov_state where
  "demo_state =
     \<lparr>blocks = [1 \<mapsto> [0x41, 0x42], 2 \<mapsto> [0, 0, 0], 4 \<mapsto> [0x41, 0x42], 5 \<mapsto> [0],
                6 \<mapsto> [0x41, 0x42], 8 \<mapsto> [0, 0, 0, 0], 10 \<mapsto> []],
      next_addr = 11, alloc_count = 5, alloc_fails = (\<lambda>_. False), freed = [],
      stdin_rest = [], stdout_data = [], fs = Map.empty, fs_writable = (\<lambda>_. False),
      ctxs = [3 \<mapsto> demo_ctx 4 2, 7 \<mapsto> demo_ctx 6 2, 9 \<mapsto> demo_ctx 10 0]\<rparr>"

lemmas demo_simps = demo_state_def demo_ctx_def ctx_inv_def prov_wf_def heap_wf_def
  CRYPT_MAX_BUFFER_SIZE_def

subsection \<open>The algorithm of the specification on lists\<close>

text \<open>
  \<open>crypt_bytes k i xs\<close> transforms \<open>xs\<close> starting from key bytes \<open>k\<close> and cursor
  \<open>i\<close>, and returns the new key bytes, the new cursor and the output.
\<close>

fun crypt_bytes :: "byte list \<Rightarrow> nat \<Rightarrow> byte list \<Rightarrow> byte list \<times> nat \<times> byte list" where
  "crypt_bytes k i [] = (k, i, [])"
| "crypt_bytes k i (x # xs) =
     (let k1 = k[i := k ! i + word_of_nat i];
          (k', i', ys) = crypt_bytes k1 ((i + 1) mod length k) xs
      in (k', i', (x XOR k1 ! i) # ys))"

subsection \<open>The loop refines the list algorithm\<close>

text \<open>
  From a cursor inside the key and blocks long enough for the whole span, the loop
  never faults; it leaves the key block equal to the key bytes \<open>crypt_bytes\<close>
  computes and the output block equal to its output spliced in at \<open>pos\<close>. The input
  is read from the block as it was at the start, also when the output block is the
  input block: each position is written only after it has been read.
\<close>

lemma crypt_loop_unfold_step:
  assumes "pos < len" "blocks m kp = Some kb" "unat i < length kb"
    "blocks m inp = Some ib" "pos < length ib" "blocks m out = Some ob" "pos < length ob"
    "kp \<noteq> inp" "kp \<noteq> out"
  shows "crypt_loop kp out inp ks len i pos m =
     crypt_loop kp out inp ks len (word_of_nat ((unat i + 1) mod unat ks)) (Suc pos)
       (m\<lparr>blocks := (blocks m)(kp \<mapsto> kb[unat i := kb ! unat i + i],
           out \<mapsto> ob[pos := ib ! pos XOR (kb ! unat i + i)])\<rparr>)"
  using assms by (simp add: crypt_loop.simps [of kp out inp ks len i pos m] mem_simps)

lemma crypt_loop_refines:
  assumes "blocks m kp = Some kb" "length kb = unat ks" "unat i < unat ks"
    "blocks m inp = Some ib" "blocks m out = Some ob" "len \<le> length ib" "len \<le> length ob"
    "kp \<noteq> inp" "kp \<noteq> out" "pos \<le> len"
  shows "crypt_loop kp out inp ks len i pos m =
     (case crypt_bytes kb (unat i) (take (len - pos) (drop pos ib)) of
        (kb', i', ys) \<Rightarrow> Some (word_of_nat i',
           m\<lparr>blocks := (blocks m)(kp \<mapsto> kb', out \<mapsto> take pos ob @ ys @ drop len ob)\<rparr>))"
  using assms
proof (induction "len - pos" arbitrary: pos i m kb ib ob)
  case 0
  then have pos: "pos = len" by simp
  have run: "crypt_loop kp out inp ks len i len m = Some (i, m)"
    by (simp add: crypt_loop.simps [of kp out inp ks len i len m])
  have "(blocks m)(kp \<mapsto> kb, out \<mapsto> take len ob @ [] @ drop len ob) = blocks m"
    using "0.prems"(1,5) by (simp add: map_upd_triv)
  then have upd: "m\<lparr>blocks := (blocks m)(kp \<mapsto> kb, out \<mapsto> take len ob @ [] @ drop len ob)\<rparr> = m"
    by (simp only: machine.update_convs(1)) simp
  have case_eq: "(case crypt_bytes kb (unat i) (take (len - pos) (drop pos ib)) of
        (kb', i', ys) \<Rightarrow> Some (word_of_nat i' :: byte,
           m\<lparr>blocks := (blocks m)(kp \<mapsto> kb', out \<mapsto> take pos ob @ ys @ drop len ob)\<rparr>)) =
     Some (i, m\<lparr>blocks := (blocks m)(kp \<mapsto> kb, out \<mapsto> take len ob @ [] @ drop len ob)\<rparr>)"
    by (simp only: pos diff_self_eq_0 take_0 crypt_bytes.simps(1) prod.case of_nat_unat ucast_id)
  have "crypt_loop kp out inp ks len i pos m = Some (i, m)" using run pos by simp
  also have "\<dots> = (case crypt_bytes kb (unat i) (take (len - pos) (drop pos ib)) of
        (kb', i', ys) \<Rightarrow> Some (word_of_nat i',
           m\<lparr>blocks := (blocks m)(kp \<mapsto> kb', out \<mapsto> take pos ob @ ys @ drop len ob)\<rparr>))"
    by (simp only: case_eq upd)
  finally show ?case .
next
  case (Suc d)
  let ?k1 = "kb[unat i := kb ! unat i + i]"
  let ?v = "ib ! pos XOR (kb ! unat i + i)"
  let ?ob' = "ob[pos := ?v]"
  let ?ib' = "if out = inp then ?ob' else ib"
  let ?m' = "m\<lparr>blocks := (blocks m)(kp \<mapsto> ?k1, out \<mapsto> ?ob')\<rparr>"
  let ?i' = "word_of_nat ((unat i + 1) mod unat ks) :: byte"
  have pos: "pos < len" using Suc.hyps by simp
  have ks: "0 < unat ks" using Suc.prems(3) by simp
  have ui': "unat ?i' = (unat i + 1) mod unat ks"
  proof -
    have "unat ks < 256" by simp
    then have "(unat i + 1) mod unat ks < 256"
      using ks by (meson less_trans mod_less_divisor)
    then show ?thesis by (simp add: unat_of_nat)
  qed
  have step: "crypt_loop kp out inp ks len i pos m = crypt_loop kp out inp ks len ?i' (Suc pos) ?m'"
    using Suc.prems pos by (intro crypt_loop_unfold_step) auto
  have ib': "blocks ?m' inp = Some ?ib'" using Suc.prems by auto
  have ob': "blocks ?m' out = Some ?ob'" by simp
  have kb': "blocks ?m' kp = Some ?k1" using Suc.prems by simp
  have drop_eq: "take (len - Suc pos) (drop (Suc pos) ?ib') = take (len - Suc pos) (drop (Suc pos) ib)"
    using Suc.prems(4,5) by auto
  have IH: "crypt_loop kp out inp ks len ?i' (Suc pos) ?m' =
     (case crypt_bytes ?k1 (unat ?i') (take (len - Suc pos) (drop (Suc pos) ?ib')) of
        (kb', i', ys) \<Rightarrow> Some (word_of_nat i',
           ?m'\<lparr>blocks := (blocks ?m')(kp \<mapsto> kb', out \<mapsto> take (Suc pos) ?ob' @ ys @ drop len ?ob')\<rparr>))"
    using Suc.prems pos ks ui' Suc.hyps(2)
    by (intro Suc.hyps(1)) (auto simp: ib' kb')
  have split: "take (len - pos) (drop pos ib) = ib ! pos # take (len - Suc pos) (drop (Suc pos) ib)"
  proof -
    have "len - pos = Suc (len - Suc pos)" using pos by simp
    moreover have "pos < length ib" using pos Suc.prems(6) by simp
    ultimately show ?thesis by (simp add: nth_drop_take_hd)
  qed
  obtain kb' j ys where cb: "crypt_bytes ?k1 ((unat i + 1) mod unat ks)
      (take (len - Suc pos) (drop (Suc pos) ib)) = (kb', j, ys)"
    by (cases "crypt_bytes ?k1 ((unat i + 1) mod unat ks) (take (len - Suc pos) (drop (Suc pos) ib))") auto
  have lhs: "crypt_loop kp out inp ks len i pos m =
      Some (word_of_nat j, ?m'\<lparr>blocks := (blocks ?m')(kp \<mapsto> kb', out \<mapsto> take (Suc pos) ?ob' @ ys @ drop len ?ob')\<rparr>)"
    using step IH drop_eq ui' cb by simp
  have nth1: "?k1 ! unat i = kb ! unat i + i"
    using Suc.prems(2,3) by simp
  have rhs: "crypt_bytes kb (unat i) (take (len - pos) (drop pos ib)) = (kb', j, ?v # ys)"
    using cb Suc.prems(2) nth1 by (simp add: split Let_def)
  have obs: "take (Suc pos) ?ob' @ ys @ drop len ?ob' = take pos ob @ ?v # ys @ drop len ob"
    using pos Suc.prems(7) by (simp add: take_Suc_conv_app_nth)
  have maps: "((blocks m)(kp \<mapsto> ?k1, out \<mapsto> ?ob'))(kp \<mapsto> kb', out \<mapsto> take pos ob @ ?v # ys @ drop len ob) =
      (blocks m)(kp \<mapsto> kb', out \<mapsto> take pos ob @ ?v # ys @ drop len ob)"
    using Suc.prems(9) by (intro ext) simp
  show ?case
    using lhs rhs obs maps by simp
qed
subsection \<open>Properties of the list algorithm\<close>

text \<open>
  The output has the length of the input and the key keeps its length; the cursor
  stays inside the key; running over \<open>xs @ ys\<close> is running over \<open>xs\<close> and then
  over \<open>ys\<close> from the state reached (chunk invariance); the output is the input XOR a
  keystream that depends on the length of the input only; hence running the
  transform over its own output from the same start state gives the input back.
\<close>

lemma crypt_bytes_length:
  "crypt_bytes k i xs = (k', i', ys) \<Longrightarrow> length k' = length k \<and> length ys = length xs"
  by (induction xs arbitrary: k i k' i' ys) (auto simp: Let_def split: prod.splits)

lemma crypt_bytes_cursor:
  "crypt_bytes k i xs = (k', i', ys) \<Longrightarrow> i < length k \<Longrightarrow> i' < length k"
proof (induction xs arbitrary: k i k' i' ys)
  case Nil
  then show ?case by simp
next
  case (Cons x xs)
  let ?k1 = "k[i := k ! i + word_of_nat i]"
  obtain k2 i2 ys2 where r: "crypt_bytes ?k1 ((i + 1) mod length k) xs = (k2, i2, ys2)"
    by (cases "crypt_bytes ?k1 ((i + 1) mod length k) xs") auto
  have "(i + 1) mod length k < length ?k1" using Cons.prems(2) by simp
  with r have "i2 < length ?k1" by (rule Cons.IH)
  with r Cons.prems(1) show ?case by (simp add: Let_def)
qed

lemma crypt_bytes_append:
  "crypt_bytes k i (xs @ ys) =
     (case crypt_bytes k i xs of (k1, i1, os1) \<Rightarrow>
        case crypt_bytes k1 i1 ys of (k2, i2, os2) \<Rightarrow> (k2, i2, os1 @ os2))"
  by (induction xs arbitrary: k i) (auto simp: Let_def split: prod.splits)

lemma crypt_bytes_keystream:
  "crypt_bytes k i xs =
     (case crypt_bytes k i (replicate (length xs) 0) of (k', i', z) \<Rightarrow> (k', i', map2 (XOR) xs z))"
  by (induction xs arbitrary: k i) (auto simp: Let_def split: prod.splits)

lemma crypt_bytes_involution:
  "crypt_bytes k i xs = (k', i', ys) \<Longrightarrow> crypt_bytes k i ys = (k', i', xs)"
proof -
  assume a: "crypt_bytes k i xs = (k', i', ys)"
  obtain k2 i2 z where z: "crypt_bytes k i (replicate (length xs) 0) = (k2, i2, z)"
    by (cases "crypt_bytes k i (replicate (length xs) 0)") auto
  from a z crypt_bytes_keystream [of k i xs] have ys: "ys = map2 (XOR) xs z" and "k' = k2" "i' = i2"
    by auto
  have lz: "length z = length xs" using crypt_bytes_length [OF z] by simp
  then have "length ys = length xs" by (simp add: ys)
  moreover have "map2 (XOR) ys z = xs"
    using lz by (simp add: ys map2_map_map list_eq_iff_nth_eq word_bw_assocs)
  ultimately show ?thesis
    using crypt_bytes_keystream [of k i ys] z \<open>k' = k2\<close> \<open>i' = i2\<close> by simp
qed

subsection \<open>The loop changes nothing but the contents of blocks\<close>

lemma store_frame:
  "store p j v m = Some m' \<Longrightarrow>
     (\<exists>b. m' = m\<lparr>blocks := b\<rparr>) \<and> (\<forall>q. map_option length (blocks m' q) = map_option length (blocks m q))"
  by (auto simp: store_eq_Some_iff)

lemma cursor_advance_bound:
  "unat i < unat (ks::byte) \<Longrightarrow> unat (word_of_nat ((unat i + 1) mod unat ks) :: byte) < unat ks"
proof -
  assume a: "unat i < unat ks"
  have "(unat i + 1) mod unat ks < unat ks" using a by simp
  moreover have "unat ks < 256" by simp
  ultimately show ?thesis by (simp add: unat_of_nat)
qed

lemma crypt_loop_frame:
  "crypt_loop kp out inp ks len i pos m = Some (i', m') \<Longrightarrow>
     (\<exists>b. m' = m\<lparr>blocks := b\<rparr>) \<and>
     (\<forall>q. map_option length (blocks m' q) = map_option length (blocks m q)) \<and>
     (unat i < unat ks \<longrightarrow> unat i' < unat ks)"
proof (induction kp out inp ks len i pos m arbitrary: i' m' rule: crypt_loop.induct)
  case (1 kp out inp ks len i pos m)
  show ?case
  proof (cases "pos < len")
    case False
    with "1.prems" show ?thesis
      by (auto simp: crypt_loop.simps [of kp out inp ks len i pos m] intro!: exI [where x = "blocks m"])
  next
    case True
    with "1.prems" obtain k m1 x k' m2 where
      k: "load m kp (unat i) = Some k" and
      m1: "store kp (unat i) (word_of_nat ((unat k + unat i) mod 256)) m = Some m1" and
      x: "load m1 inp pos = Some x" and k': "load m1 kp (unat i) = Some k'" and
      m2: "store out pos (x XOR k') m1 = Some m2" and
      rec: "crypt_loop kp out inp ks len (word_of_nat ((unat i + 1) mod unat ks)) (Suc pos) m2 = Some (i', m')"
      by (auto simp: crypt_loop.simps [of kp out inp ks len i pos m] bind_eq_Some_conv)
    have IH: "(\<exists>b. m' = m2\<lparr>blocks := b\<rparr>) \<and>
      (\<forall>q. map_option length (blocks m' q) = map_option length (blocks m2 q)) \<and>
      (unat (word_of_nat ((unat i + 1) mod unat ks) :: byte) < unat ks \<longrightarrow> unat i' < unat ks)"
      using "1.IH" [OF True k m1 x k' m2 rec] .
    from store_frame [OF m1] store_frame [OF m2] IH
    have "\<exists>b. m' = m\<lparr>blocks := b\<rparr>" by auto
    moreover from store_frame [OF m1] store_frame [OF m2] IH
    have "\<forall>q. map_option length (blocks m' q) = map_option length (blocks m q)" by simp
    moreover from IH cursor_advance_bound [of i ks]
    have "unat i < unat ks \<longrightarrow> unat i' < unat ks" by blast
    ultimately show ?thesis by blast
  qed
qed

lemma unat_ucast_16_byte: "unat (w::16 word) < 256 \<Longrightarrow> unat (ucast w :: byte) = unat w"
  by (simp add: unsigned_ucast_eq take_bit_nat_eq_self_iff)

lemma ctx_inv_fields:
  assumes "ctx_inv s c" "ctxs s c = Some cx"
  obtains kb where "0 < key cx" "key_size cx < 255" "blocks s (key cx) = Some kb"
    "length kb = unat (key_size cx)" "unat (key_size cx) < 255"
    "unat (key_state cx) < max 1 (unat (key_size cx))"
  using assms by (auto simp: ctx_inv_def word_less_nat_alt split: option.splits)

lemma crypt_buffer_spec:
  assumes inv: "ctx_inv s c" and cx: "ctxs s c = Some cx" and nz: "key_size cx \<noteq> 0"
    and kb: "blocks s (key cx) = Some kb" and ib: "blocks s inp = Some ib"
    and ob: "blocks s out = Some ob"
    and ptrs: "0 < c" "0 < out" "0 < inp" and len: "0 < len" "len \<le> CRYPT_MAX_BUFFER_SIZE"
    and fit: "unat len \<le> length ib" "unat len \<le> length ob"
    and sep: "out \<noteq> key cx" "inp \<noteq> key cx"
  shows "crypt_buffer c out inp len s =
     (case crypt_bytes kb (unat (key_state cx)) (take (unat len) ib) of (kb', j, ys) \<Rightarrow>
        Some (len, s\<lparr>blocks := (blocks s)(key cx \<mapsto> kb', out \<mapsto> ys @ drop (unat len) ob),
                    ctxs := (ctxs s)(c \<mapsto> cx\<lparr>key_state := word_of_nat j\<rparr>)\<rparr>))"
proof -
  obtain kb0 where f: "0 < key cx" "key_size cx < 255" "blocks s (key cx) = Some kb0"
      "length kb0 = unat (key_size cx)" "unat (key_size cx) < 255"
      "unat (key_state cx) < max 1 (unat (key_size cx))"
    using inv cx by (rule ctx_inv_fields)
  with kb have kb0: "kb0 = kb" by simp
  let ?ks = "ucast (key_size cx) :: byte"
  have uks: "unat ?ks = unat (key_size cx)" using f(5) by (simp add: unat_ucast_16_byte)
  have nz': "unat (key_size cx) \<noteq> 0" using nz by (simp add: unat_eq_zero)
  have cur: "unat (key_state cx) < unat ?ks" using f(6) nz' uks by simp
  have guards: "\<not> (key cx = 0 \<or> key_size cx = 0)" "\<not> (len > CRYPT_MAX_BUFFER_SIZE \<or> key_size cx \<ge> ucast CRYPT_MAX_KEY_LEN)"
    using f(1,2) nz len by (auto simp: CRYPT_MAX_KEY_LEN_def)
  have loop: "crypt_loop (key cx) out inp ?ks (unat len) (key_state cx) 0 s =
     (case crypt_bytes kb (unat (key_state cx)) (take (unat len - 0) (drop 0 ib)) of
        (kb', j, ys) \<Rightarrow> Some (word_of_nat j,
           s\<lparr>blocks := (blocks s)(key cx \<mapsto> kb', out \<mapsto> take 0 ob @ ys @ drop (unat len) ob)\<rparr>))"
    using kb ib ob fit sep cur f(4) kb0 uks by (intro crypt_loop_refines) auto
  have "len \<noteq> 0" using len(1) by simp
  then show ?thesis
    using ptrs guards cx
    by (simp add: crypt_buffer_def loop ctx_upd_def split: prod.split)
qed
subsection \<open>Library lemmas on calls of \<open>crypt_buffer\<close> and \<open>crypt_alloc_context\<close>\<close>

lemma crypt_buffer_call:
  assumes inv: "ctx_inv s c" and cx: "ctxs s c = Some cx" and nz: "key_size cx \<noteq> 0"
    and kb: "blocks s (key cx) = Some kb" and ib: "blocks s inp = Some ib"
    and ob: "blocks s out = Some ob"
    and ptrs: "0 < c" "0 < out" "0 < inp" and len: "0 < len" "len \<le> CRYPT_MAX_BUFFER_SIZE"
    and fit: "unat len \<le> length ib" "unat len \<le> length ob"
    and sep: "out \<noteq> key cx" "inp \<noteq> key cx"
    and run: "crypt_bytes kb (unat (key_state cx)) (take (unat len) ib) = (kb', j, ys)"
  defines "s' \<equiv> s\<lparr>blocks := (blocks s)(key cx \<mapsto> kb', out \<mapsto> ys @ drop (unat len) ob),
                    ctxs := (ctxs s)(c \<mapsto> cx\<lparr>key_state := word_of_nat j\<rparr>)\<rparr>"
  shows "crypt_buffer c out inp len s = Some (len, s')"
    and "ctx_inv s' c" and "unat (word_of_nat j :: byte) = j" and "length kb' = length kb"
proof -
  show "crypt_buffer c out inp len s = Some (len, s')"
    using crypt_buffer_spec [OF assms(1-15)] run by (simp add: s'_def)
  obtain kb0 where f: "0 < key cx" "key_size cx < 255" "blocks s (key cx) = Some kb0"
      "length kb0 = unat (key_size cx)" "unat (key_size cx) < 255"
      "unat (key_state cx) < max 1 (unat (key_size cx))"
    using inv cx by (rule ctx_inv_fields)
  have nz': "unat (key_size cx) \<noteq> 0" using nz by (simp add: unat_eq_zero)
  have lk: "length kb' = length kb" using crypt_bytes_length [OF run] by simp
  then show "length kb' = length kb" .
  have "j < length kb" using crypt_bytes_cursor [OF run] f kb nz' by simp
  moreover have "length kb < 256" using f kb by simp
  ultimately show uj: "unat (word_of_nat j :: byte) = j" by (simp add: unat_of_nat)
  show "ctx_inv s' c"
    using f kb lk uj \<open>j < length kb\<close> sep(1) by (simp add: s'_def ctx_inv_def)
qed

lemma len32_facts:
  assumes "xs \<noteq> []" "length xs \<le> 65535"
  shows "unat (word_of_nat (length xs) :: 32 word) = length xs"
    and "0 < (word_of_nat (length xs) :: 32 word)"
    and "(word_of_nat (length xs) :: 32 word) \<le> CRYPT_MAX_BUFFER_SIZE"
  using assms by (simp_all add: unat_of_nat word_less_nat_alt word_le_nat_alt CRYPT_MAX_BUFFER_SIZE_def)

text \<open>The call pattern of the stdin mode of the tool: a whole non-empty block transformed
  in place.\<close>

lemma crypt_buffer_in_place_call:
  assumes inv: "ctx_inv s c" and cx: "ctxs s c = Some cx" and nz: "key_size cx \<noteq> 0"
    and kb: "blocks s (key cx) = Some kb" and b: "blocks s p = Some xs"
    and ptrs: "0 < c" "0 < p" and sep: "p \<noteq> key cx"
    and ne: "xs \<noteq> []" and bound: "length xs \<le> 65535"
    and run: "crypt_bytes kb (unat (key_state cx)) xs = (kb', j, ys)"
  defines "s' \<equiv> s\<lparr>blocks := (blocks s)(key cx \<mapsto> kb', p \<mapsto> ys),
                    ctxs := (ctxs s)(c \<mapsto> cx\<lparr>key_state := word_of_nat j\<rparr>)\<rparr>"
  shows "crypt_buffer c p p (word_of_nat (length xs)) s = Some (word_of_nat (length xs), s')"
    and "ctx_inv s' c" and "unat (word_of_nat j :: byte) = j" and "length kb' = length kb"
    and "length ys = length xs"
proof -
  note l = len32_facts [OF ne bound]
  have run': "crypt_bytes kb (unat (key_state cx)) (take (unat (word_of_nat (length xs) :: 32 word)) xs) = (kb', j, ys)"
    using run l(1) by simp
  have fit: "unat (word_of_nat (length xs) :: 32 word) \<le> length xs" using l(1) by simp
  note call = crypt_buffer_call [OF inv cx nz kb b b ptrs(1) ptrs(2) ptrs(2) l(2) l(3) fit fit sep sep run']
  have "ys @ drop (unat (word_of_nat (length xs) :: 32 word)) xs = ys" using l(1) by simp
  then show "crypt_buffer c p p (word_of_nat (length xs)) s = Some (word_of_nat (length xs), s')"
    and "ctx_inv s' c" and "unat (word_of_nat j :: byte) = j" and "length kb' = length kb"
    using call by (simp_all add: s'_def)
  show "length ys = length xs" using crypt_bytes_length [OF run] by simp
qed

lemma ctx_inv_other_call:
  assumes "ctx_inv s b" "ctxs s b = Some cxb" "a \<noteq> b" "p \<noteq> key cxb" "k \<noteq> key cxb"
  shows "ctx_inv (s\<lparr>blocks := (blocks s)(k \<mapsto> v, p \<mapsto> w), ctxs := (ctxs s)(a \<mapsto> cx)\<rparr>) b"
  using assms by (simp add: ctx_inv_def)

lemma ctx_key_block_length_frame:
  assumes "map_option length (b k) = map_option length (blocks s k)"
  shows "(case b k of None \<Rightarrow> False | Some kb \<Rightarrow> length kb = n) =
         (case blocks s k of None \<Rightarrow> False | Some kb \<Rightarrow> length kb = n)"
  using assms by (cases "b k"; cases "blocks s k") auto

lemma ctx_inv_cursor:
  "ctx_inv s c \<Longrightarrow> ctxs s c = Some cx \<Longrightarrow> key_size cx \<noteq> 0 \<Longrightarrow>
   unat (key_state cx) < unat (key_size cx)"
proof -
  assume a: "ctx_inv s c" "ctxs s c = Some cx" "key_size cx \<noteq> 0"
  then have "unat (key_size cx) \<noteq> 0" by (simp add: unat_eq_zero)
  with a show ?thesis by (auto simp: ctx_inv_def max_def split: if_splits)
qed

lemma crypt_alloc_context_run:
  assumes wf: "prov_wf s" and kp: "blocks s kp = Some kb" and sz: "unat ksz \<le> length kb" "ksz < 255"
    and ok: "\<not> alloc_fails s (alloc_count s)" "\<not> alloc_fails s (Suc (alloc_count s))"
  shows "crypt_alloc_context True kp ksz s = Some (CRYPT_ERROR_OK, Some (next_addr s),
     s\<lparr>blocks := (blocks s)(Suc (next_addr s) \<mapsto> take (unat ksz) kb),
       next_addr := Suc (Suc (next_addr s)), alloc_count := Suc (Suc (alloc_count s)),
       ctxs := (ctxs s)(next_addr s \<mapsto> \<lparr>version = CRYPT_VERSION,
          version_string = Some CRYPT_VERSION_STRING, key = Suc (next_addr s),
          key_size = ucast ksz, key_state = 0\<rparr>)\<rparr>)"
proof -
  have kp0: "0 < kp" "kp < next_addr s" using wf kp by (auto simp: prov_wf_def heap_wf_def)
  have nk: "kp \<noteq> Suc (next_addr s)" using kp0 by simp
  have ksz: "\<not> CRYPT_MAX_KEY_LEN \<le> ksz" using sz(2) by (simp add: CRYPT_MAX_KEY_LEN_def not_le)
  have pos: "0 < next_addr s" using wf by (simp add: prov_wf_def heap_wf_def)
  have cp: "take (unat ksz) kb @ drop (unat ksz) (replicate (unat ksz) 0) = take (unat ksz) kb" by simp
  show ?thesis
    using ok kp0 nk ksz pos kp sz(1) cp
    by (simp add: crypt_alloc_context_def alloc_addr_def malloc_def ctx_upd_def mem_simps
        ctx_zero_def crypt_get_version_long_def crypt_get_version_string_def fun_upd_twist)
qed

lemma crypt_free_context_run:
  assumes "ctxs s c = Some cx" "0 < c" "blocks s (key cx) = Some kb" "unat (key_size cx) \<le> length kb" "0 < key cx"
  shows "crypt_free_context c s =
     Some (s\<lparr>blocks := (blocks s)(key cx := None),
             freed := freed s @ [replicate (unat (key_size cx)) 0 @ drop (unat (key_size cx)) kb],
             ctxs := (ctxs s)(c := None)\<rparr>)"
  using assms by (simp add: crypt_free_context_def memset_Some free_Some)

subsection \<open>Properties of \<open>libcryptprov\<close>\<close>

text \<open>C1. Chunk invariance: transforming a stream in two in-place calls on one context gives the same output bytes, the same key bytes and the same cursor as one call over the concatenation.\<close>

theorem crypt_buffer_chunk_invariant:
  assumes inv: "ctx_inv s c" and cx: "ctxs s c = Some cx" and nz: "key_size cx \<noteq> 0" and c: "0 < c"
    and b1: "blocks s b1 = Some xs" and b2: "blocks s b2 = Some ys" and b: "blocks s b = Some (xs @ ys)"
    and ptrs: "0 < b1" "0 < b2" "0 < b" "b1 \<noteq> b2"
    and sep: "b1 \<noteq> key cx" "b2 \<noteq> key cx" "b \<noteq> key cx"
    and ne: "xs \<noteq> []" "ys \<noteq> []" and bound: "length (xs @ ys) \<le> 65535"
  shows "\<exists>s1 s2 s' xs' ys'.
     crypt_buffer c b1 b1 (word_of_nat (length xs)) s = Some (word_of_nat (length xs), s1) \<and>
     crypt_buffer c b2 b2 (word_of_nat (length ys)) s1 = Some (word_of_nat (length ys), s2) \<and>
     crypt_buffer c b b (word_of_nat (length (xs @ ys))) s = Some (word_of_nat (length (xs @ ys)), s') \<and>
     blocks s2 b1 = Some xs' \<and> blocks s2 b2 = Some ys' \<and> blocks s' b = Some (xs' @ ys') \<and>
     blocks s2 (key cx) = blocks s' (key cx) \<and> ctxs s2 = ctxs s'"
proof -
  obtain kb where kb: "blocks s (key cx) = Some kb"
    using inv cx by (auto simp: ctx_inv_def split: option.splits)
  have lens: "length xs \<le> 65535" "length ys \<le> 65535" using bound by simp_all
  have ne': "xs @ ys \<noteq> []" using ne by simp
  obtain k1 i1 os1 where r1: "crypt_bytes kb (unat (key_state cx)) xs = (k1, i1, os1)"
    by (cases "crypt_bytes kb (unat (key_state cx)) xs") auto
  obtain k2 i2 os2 where r2: "crypt_bytes k1 i1 ys = (k2, i2, os2)"
    by (cases "crypt_bytes k1 i1 ys") auto
  have r: "crypt_bytes kb (unat (key_state cx)) (xs @ ys) = (k2, i2, os1 @ os2)"
    using r1 r2 by (simp add: crypt_bytes_append)
  let ?cx1 = "cx\<lparr>key_state := word_of_nat i1\<rparr>"
  define s1 where "s1 = s\<lparr>blocks := (blocks s)(key cx \<mapsto> k1, b1 \<mapsto> os1), ctxs := (ctxs s)(c \<mapsto> ?cx1)\<rparr>"
  note call1 = crypt_buffer_in_place_call [OF inv cx nz kb b1 c ptrs(1) sep(1) ne(1) lens(1) r1,
      folded s1_def]
  have cx1: "ctxs s1 c = Some ?cx1" and kb1: "blocks s1 (key cx) = Some k1"
    and b21: "blocks s1 b2 = Some ys" and nz1: "key_size ?cx1 \<noteq> 0"
    using b2 sep ptrs(4) nz by (simp_all add: s1_def)
  have r2': "crypt_bytes k1 (unat (key_state ?cx1)) ys = (k2, i2, os2)" using r2 call1(3) by simp
  define s2 where "s2 = s1\<lparr>blocks := (blocks s1)(key ?cx1 \<mapsto> k2, b2 \<mapsto> os2),
      ctxs := (ctxs s1)(c \<mapsto> ?cx1\<lparr>key_state := word_of_nat i2\<rparr>)\<rparr>"
  note call2 = crypt_buffer_in_place_call [OF call1(2) cx1 nz1 _ b21 c ptrs(2) _ ne(2) lens(2) r2',
      folded s2_def]
  define s' where "s' = s\<lparr>blocks := (blocks s)(key cx \<mapsto> k2, b \<mapsto> os1 @ os2),
      ctxs := (ctxs s)(c \<mapsto> cx\<lparr>key_state := word_of_nat i2\<rparr>)\<rparr>"
  note call = crypt_buffer_in_place_call [OF inv cx nz kb b c ptrs(3) sep(3) ne' bound r, folded s'_def]
  have "blocks s2 b1 = Some os1" "blocks s2 b2 = Some os2" "blocks s' b = Some (os1 @ os2)"
    "blocks s2 (key cx) = blocks s' (key cx)" "ctxs s2 = ctxs s'"
    using sep ptrs(4) by (simp_all add: s2_def s'_def s1_def)
  with call1(1) call2(1) call(1) kb1 sep(2) show ?thesis by auto
qed

text \<open>C2. Round trip: with two contexts holding the same key bytes and the same cursor, transforming a buffer with the first and then the result with the second restores the buffer.\<close>

theorem crypt_buffer_roundtrip:
  assumes inva: "ctx_inv s a" and invb: "ctx_inv s b"
    and ca: "ctxs s a = Some cxa" and cb: "ctxs s b = Some cxb" and ab: "0 < a" "0 < b"
    and keys: "blocks s (key cxa) = Some k" "blocks s (key cxb) = Some k"
    and cur: "key_state cxa = key_state cxb" and nz: "k \<noteq> []" and dist: "key cxa \<noteq> key cxb"
    and buf: "blocks s p = Some xs" "0 < p" "p \<noteq> key cxa" "p \<noteq> key cxb"
    and ne: "xs \<noteq> []" "length xs \<le> 65535"
  shows "\<exists>s1 s2.
     crypt_buffer a p p (word_of_nat (length xs)) s = Some (word_of_nat (length xs), s1) \<and>
     crypt_buffer b p p (word_of_nat (length xs)) s1 = Some (word_of_nat (length xs), s2) \<and>
     blocks s2 p = Some xs"
proof -
  have a_b: "a \<noteq> b" using ca cb dist by auto
  have nza: "key_size cxa \<noteq> 0" and nzb: "key_size cxb \<noteq> 0"
    using inva invb ca cb keys nz by (auto simp: ctx_inv_def)
  obtain k1 i1 ys where r1: "crypt_bytes k (unat (key_state cxa)) xs = (k1, i1, ys)"
    by (cases "crypt_bytes k (unat (key_state cxa)) xs") auto
  have r2: "crypt_bytes k (unat (key_state cxb)) ys = (k1, i1, xs)"
    using crypt_bytes_involution [OF r1] cur by simp
  define s1 where "s1 = s\<lparr>blocks := (blocks s)(key cxa \<mapsto> k1, p \<mapsto> ys),
      ctxs := (ctxs s)(a \<mapsto> cxa\<lparr>key_state := word_of_nat i1\<rparr>)\<rparr>"
  note call1 = crypt_buffer_in_place_call [OF inva ca nza keys(1) buf(1) ab(1) buf(2) buf(3) ne r1,
      folded s1_def]
  have inv1: "ctx_inv s1 b"
    unfolding s1_def using invb cb a_b buf(4) dist by (rule ctx_inv_other_call)
  have cb1: "ctxs s1 b = Some cxb" and kb1: "blocks s1 (key cxb) = Some k"
    and p1: "blocks s1 p = Some ys" and ly: "ys \<noteq> []" "length ys \<le> 65535"
    using cb a_b keys dist buf call1(5) ne by (auto simp: s1_def)
  note call2 = crypt_buffer_in_place_call [OF inv1 cb1 nzb kb1 p1 ab(2) buf(2) buf(4) ly r2]
  show ?thesis
    using call1(1) call2(1) call1(5) by (intro exI conjI) (auto simp: s1_def)
qed

text \<open>C3. In-place transform: calling crypt_buffer with the output aliasing the input writes the same bytes, and leaves the same key state, as writing to a separate output buffer.\<close>

theorem crypt_buffer_in_place_eq:
  assumes inv: "ctx_inv s c" and cx: "ctxs s c = Some cx" and nz: "key_size cx \<noteq> 0"
    and ib: "blocks s p = Some ib" and ob: "blocks s q = Some ob"
    and ptrs: "0 < c" "0 < p" "0 < q" and sep: "p \<noteq> key cx" "q \<noteq> key cx"
    and len: "0 < len" "len \<le> CRYPT_MAX_BUFFER_SIZE" "unat len \<le> length ib" "unat len \<le> length ob"
  shows "\<exists>s1 s2 ys.
     crypt_buffer c p p len s = Some (len, s1) \<and> crypt_buffer c q p len s = Some (len, s2) \<and>
     blocks s1 p = Some (ys @ drop (unat len) ib) \<and> blocks s2 q = Some (ys @ drop (unat len) ob) \<and>
     blocks s1 (key cx) = blocks s2 (key cx) \<and> ctxs s1 = ctxs s2"
proof -
  obtain kb where kb: "blocks s (key cx) = Some kb"
    using inv cx by (auto simp: ctx_inv_def split: option.splits)
  obtain kb' j ys where r: "crypt_bytes kb (unat (key_state cx)) (take (unat len) ib) = (kb', j, ys)"
    by (cases "crypt_bytes kb (unat (key_state cx)) (take (unat len) ib)") auto
  note inpl = crypt_buffer_spec [OF inv cx nz kb ib ib ptrs(1) ptrs(2) ptrs(2) len(1,2) len(3) len(3) sep(1) sep(1)]
  note sepr = crypt_buffer_spec [OF inv cx nz kb ib ob ptrs(1) ptrs(3) ptrs(2) len(1,2) len(3) len(4) sep(2) sep(1)]
  define s1 where "s1 = s\<lparr>blocks := (blocks s)(key cx \<mapsto> kb', p \<mapsto> ys @ drop (unat len) ib),
      ctxs := (ctxs s)(c \<mapsto> cx\<lparr>key_state := word_of_nat j\<rparr>)\<rparr>"
  define s2 where "s2 = s\<lparr>blocks := (blocks s)(key cx \<mapsto> kb', q \<mapsto> ys @ drop (unat len) ob),
      ctxs := (ctxs s)(c \<mapsto> cx\<lparr>key_state := word_of_nat j\<rparr>)\<rparr>"
  have "crypt_buffer c p p len s = Some (len, s1)" "crypt_buffer c q p len s = Some (len, s2)"
    using inpl sepr r by (simp_all add: s1_def s2_def)
  moreover have "blocks s1 p = Some (ys @ drop (unat len) ib)" "blocks s2 q = Some (ys @ drop (unat len) ob)"
    "blocks s1 (key cx) = blocks s2 (key cx)" "ctxs s1 = ctxs s2"
    using sep by (simp_all add: s1_def s2_def)
  ultimately show ?thesis by blast
qed

text \<open>C4. Every call of crypt_buffer that does not fault keeps the invariant of every live context: its key block keeps its length and the cursor stays inside the key.\<close>

theorem crypt_buffer_preserves_ctx_inv:
  assumes inv: "ctx_inv s c" and run: "crypt_buffer c' out inp len s = Some (r, s')"
  shows "ctx_inv s' c"
proof (cases "c' = 0 \<or> out = 0 \<or> inp = 0 \<or> len = 0")
  case True
  with run inv show ?thesis by (simp add: crypt_buffer_def)
next
  case nonnull: False
  then obtain cx' where cx': "ctxs s c' = Some cx'"
    using run by (auto simp: crypt_buffer_def split: option.splits)
  show ?thesis
  proof (cases "key cx' = 0 \<or> key_size cx' = 0 \<or> len > CRYPT_MAX_BUFFER_SIZE \<or>
                key_size cx' \<ge> ucast CRYPT_MAX_KEY_LEN")
    case True
    with run nonnull cx' inv show ?thesis by (auto simp: crypt_buffer_def split: if_splits)
  next
    case guards: False
    from run nonnull cx' guards obtain i s'' where
      loop: "crypt_loop (key cx') out inp (ucast (key_size cx')) (unat len) (key_state cx') 0 s = Some (i, s'')"
      and s': "s' = ctx_upd c' (\<lambda>cx. cx\<lparr>key_state := i\<rparr>) s''"
      by (auto simp: crypt_buffer_def bind_eq_Some_conv)
    obtain b where fr: "s'' = s\<lparr>blocks := b\<rparr>"
      and lens: "\<forall>q. map_option length (b q) = map_option length (blocks s q)"
      and cur: "unat (key_state cx') < unat (ucast (key_size cx') :: byte) \<longrightarrow>
                unat i < unat (ucast (key_size cx') :: byte)"
      using crypt_loop_frame [OF loop] by auto
    obtain cx where cx: "ctxs s c = Some cx" using inv by (auto simp: ctx_inv_def split: option.splits)
    have blk: "(case b (key cx) of None \<Rightarrow> False | Some kb \<Rightarrow> length kb = unat (key_size cx)) =
               (case blocks s (key cx) of None \<Rightarrow> False | Some kb \<Rightarrow> length kb = unat (key_size cx))"
      using lens by (intro ctx_key_block_length_frame) simp
    show ?thesis
    proof (cases "c' = c")
      case False
      with inv cx blk show ?thesis by (simp add: s' fr ctx_upd_def ctx_inv_def)
    next
      case True
      with cx cx' have same: "cx' = cx" by simp
      have "key_size cx < 255" using guards same by (auto simp: CRYPT_MAX_KEY_LEN_def not_le)
      then have uks: "unat (ucast (key_size cx) :: byte) = unat (key_size cx)"
        by (simp add: unat_ucast_16_byte word_less_nat_alt)
      have "unat (key_state cx) < unat (key_size cx)"
        using inv cx guards same by (intro ctx_inv_cursor) auto
      then have "unat i < unat (key_size cx)" using cur same uks by simp
      with inv cx blk True show ?thesis
        by (simp add: s' fr ctx_upd_def ctx_inv_def split: option.splits)
    qed
  qed
qed

text \<open>C5. crypt_free_context releases the key block and the context, and the key block holds only zero bytes at the moment it is freed.\<close>

theorem crypt_free_context_zeroes_key:
  assumes inv: "ctx_inv s c" and cx: "ctxs s c = Some cx" and c: "0 < c"
  shows "crypt_free_context c s =
     Some (s\<lparr>blocks := (blocks s)(key cx := None),
             freed := freed s @ [replicate (unat (key_size cx)) 0],
             ctxs := (ctxs s)(c := None)\<rparr>)"
proof -
  obtain kb where f: "0 < key cx" "blocks s (key cx) = Some kb" "length kb = unat (key_size cx)"
    using inv cx by (auto simp: ctx_inv_def split: option.splits)
  then show ?thesis
    using c cx by (simp add: crypt_free_context_def mem_simps)
qed

text \<open>C6. crypt_alloc_context with a valid key of fewer than 255 bytes and no allocation failure returns a fresh context satisfying the invariant, whose key block is a fresh copy of the caller key and whose cursor is 0.\<close>

theorem crypt_alloc_context_ok:
  assumes wf: "prov_wf s" and kp: "blocks s kp = Some kb" and sz: "unat ksz \<le> length kb" "ksz < 255"
    and ok: "\<not> alloc_fails s (alloc_count s)" "\<not> alloc_fails s (Suc (alloc_count s))"
  shows "\<exists>c s' cx. crypt_alloc_context True kp ksz s = Some (CRYPT_ERROR_OK, Some c, s') \<and>
     c \<notin> dom (ctxs s) \<and> ctxs s' c = Some cx \<and> ctx_inv s' c \<and> prov_wf s' \<and>
     key cx \<notin> dom (blocks s) \<and> blocks s' (key cx) = Some (take (unat ksz) kb) \<and>
     key_state cx = 0 \<and> blocks s' kp = Some kb"
proof -
  note run = crypt_alloc_context_run [OF wf kp sz ok]
  have w: "0 < next_addr s" "0 \<notin> dom (blocks s)" "dom (blocks s) \<subseteq> {..<next_addr s}"
      "0 \<notin> dom (ctxs s)" "dom (ctxs s) \<subseteq> {..<next_addr s}"
    using wf by (simp_all add: prov_wf_def heap_wf_def)
  have fresh: "next_addr s \<notin> dom (ctxs s)" "Suc (next_addr s) \<notin> dom (blocks s)"
    "kp \<noteq> Suc (next_addr s)"
    using w kp by auto
  have "unat ksz < 65536" using unat_byte_lt [of ksz] by linarith
  then have uk: "unat (ucast ksz :: 16 word) = unat ksz"
    by (simp add: unsigned_ucast_eq take_bit_nat_eq_self_iff)
  have lt: "(ucast ksz :: 16 word) < 255" using sz(2) by (simp add: word_less_nat_alt uk)
  have wf': "prov_wf (s\<lparr>blocks := (blocks s)(Suc (next_addr s) \<mapsto> take (unat ksz) kb),
       next_addr := Suc (Suc (next_addr s)), alloc_count := Suc (Suc (alloc_count s)),
       ctxs := (ctxs s)(next_addr s \<mapsto> \<lparr>version = CRYPT_VERSION,
          version_string = Some CRYPT_VERSION_STRING, key = Suc (next_addr s),
          key_size = ucast ksz, key_state = 0\<rparr>)\<rparr>)"
    using w unfolding prov_wf_def heap_wf_def by auto
  show ?thesis
    using run fresh wf' lt uk sz(1) kp by (simp add: ctx_inv_def)
qed

text \<open>C7. Every failing call of crypt_alloc_context returns no context and leaves the heap, the context store and the free log as they were: no partial context survives.\<close>

theorem crypt_alloc_context_failure_clean:
  assumes wf: "prov_wf s" and run: "crypt_alloc_context ctx_out kp ksz s = Some (e, w, s')"
    and err: "e \<noteq> CRYPT_ERROR_OK"
  shows "w = None \<and> blocks s' = blocks s \<and> ctxs s' = ctxs s \<and> freed s' = freed s"
proof -
  have fresh: "ctxs s (next_addr s) = None"
    using wf by (auto simp: prov_wf_def)
  from run err fresh show ?thesis
    by (auto simp: crypt_alloc_context_def alloc_addr_def malloc_def ctx_upd_def Let_def
        bind_eq_Some_conv split: if_splits prod.splits)
qed

text \<open>C8. A request of more than CRYPT_MAX_BUFFER_SIZE bytes on a valid context is refused with CRYPT_ERROR_NO_MEMORY (the code 1) and changes nothing.\<close>

theorem crypt_buffer_oversized:
  "ctxs s c = Some cx \<Longrightarrow> 0 < key cx \<Longrightarrow> key_size cx \<noteq> 0 \<Longrightarrow> 0 < c \<Longrightarrow> 0 < out \<Longrightarrow> 0 < inp \<Longrightarrow>
   CRYPT_MAX_BUFFER_SIZE < len \<Longrightarrow>
   crypt_buffer c out inp len s = Some (crypt_error_code CRYPT_ERROR_NO_MEMORY, s)"
  by (auto simp: crypt_buffer_def)

text \<open>C9. A NULL context, NULL buffer or zero length is refused with CRYPT_ERROR_PARAMETER (the code 2) and changes nothing.\<close>

theorem crypt_buffer_rejects_parameters:
  "c = 0 \<or> out = 0 \<or> inp = 0 \<or> len = 0 \<Longrightarrow>
   crypt_buffer c out inp len s = Some (crypt_error_code CRYPT_ERROR_PARAMETER, s)"
  by (simp add: crypt_buffer_def)

text \<open>C10. A context with an empty key is refused with CRYPT_ERROR_PARAMETER and changes nothing.\<close>

theorem crypt_buffer_rejects_empty_key:
  "ctxs s c = Some cx \<Longrightarrow> key_size cx = 0 \<Longrightarrow>
   crypt_buffer c out inp len s = Some (crypt_error_code CRYPT_ERROR_PARAMETER, s)"
  by (simp add: crypt_buffer_def)

text \<open>C11. crypt_alloc_context refuses a NULL out-pointer, a NULL key and a key size of 255 with CRYPT_ERROR_PARAMETER, changing nothing.\<close>

theorem crypt_alloc_context_rejects:
  "\<not> ctx_out \<or> kp = 0 \<or> ksz = 255 \<Longrightarrow>
   crypt_alloc_context ctx_out kp ksz s = Some (CRYPT_ERROR_PARAMETER, None, s)"
  by (auto simp: crypt_alloc_context_def CRYPT_MAX_KEY_LEN_def)

subsection \<open>Witnesses\<close>

text \<open>Each property above with a hypothesis, applied to the example state \<open>demo_state\<close>.\<close>

theorem crypt_buffer_chunk_invariant_witness:
  "\<exists>s1 s2 s' xs' ys'.
     crypt_buffer 3 2 2 (word_of_nat (length [0, 0, 0 :: byte])) demo_state = Some (word_of_nat 3, s1) \<and>
     crypt_buffer 3 5 5 (word_of_nat (length [0 :: byte])) s1 = Some (word_of_nat 1, s2) \<and>
     crypt_buffer 3 8 8 (word_of_nat (length ([0, 0, 0] @ [0 :: byte]))) demo_state = Some (word_of_nat 4, s') \<and>
     blocks s2 2 = Some xs' \<and> blocks s2 5 = Some ys' \<and> blocks s' 8 = Some (xs' @ ys') \<and>
     blocks s2 4 = blocks s' 4 \<and> ctxs s2 = ctxs s'"
  using crypt_buffer_chunk_invariant [of demo_state 3 "demo_ctx 4 2" 2 "[0, 0, 0]" 5 "[0]" 8]
  by (simp add: demo_simps)

theorem crypt_buffer_roundtrip_witness:
  "\<exists>s1 s2.
     crypt_buffer 3 2 2 (word_of_nat (length [0, 0, 0 :: byte])) demo_state = Some (word_of_nat 3, s1) \<and>
     crypt_buffer 7 2 2 (word_of_nat (length [0, 0, 0 :: byte])) s1 = Some (word_of_nat 3, s2) \<and>
     blocks s2 2 = Some [0, 0, 0]"
  using crypt_buffer_roundtrip [of demo_state 3 7 "demo_ctx 4 2" "demo_ctx 6 2" "[0x41, 0x42]" 2 "[0, 0, 0]"]
  by (simp add: demo_simps)

theorem crypt_buffer_in_place_eq_witness:
  "\<exists>s1 s2 ys.
     crypt_buffer 3 2 2 3 demo_state = Some (3, s1) \<and> crypt_buffer 3 8 2 3 demo_state = Some (3, s2) \<and>
     blocks s1 2 = Some (ys @ drop 3 [0, 0, 0]) \<and> blocks s2 8 = Some (ys @ drop 3 [0, 0, 0, 0]) \<and>
     blocks s1 4 = blocks s2 4 \<and> ctxs s1 = ctxs s2"
  using crypt_buffer_in_place_eq [of demo_state 3 "demo_ctx 4 2" 2 "[0, 0, 0]" 8 "[0, 0, 0, 0]" 3]
  by (simp add: demo_simps)

theorem crypt_buffer_preserves_ctx_inv_witness:
  "ctx_inv (snd (the (crypt_buffer 3 2 2 3 demo_state))) 3"
proof -
  have "\<exists>r s'. crypt_buffer 3 2 2 3 demo_state = Some (r, s')"
    by (simp add: demo_simps crypt_buffer_def CRYPT_MAX_KEY_LEN_def crypt_loop.simps load_def store_def)
  then obtain r s' where run: "crypt_buffer 3 2 2 3 demo_state = Some (r, s')" by blast
  have "ctx_inv demo_state 3" by (simp add: demo_simps)
  from crypt_buffer_preserves_ctx_inv [OF this run] run show ?thesis by simp
qed

theorem crypt_free_context_zeroes_key_witness:
  "crypt_free_context 3 demo_state =
     Some (demo_state\<lparr>blocks := (blocks demo_state)(4 := None),
             freed := freed demo_state @ [replicate 2 0], ctxs := (ctxs demo_state)(3 := None)\<rparr>)"
proof -
  have "ctx_inv demo_state 3" "ctxs demo_state 3 = Some (demo_ctx 4 2)" "(0::nat) < 3"
    by (simp_all add: demo_simps)
  from crypt_free_context_zeroes_key [OF this] show ?thesis
    by (simp add: demo_ctx_def)
qed

theorem crypt_alloc_context_ok_witness:
  "\<exists>c s' cx. crypt_alloc_context True 1 2 demo_state = Some (CRYPT_ERROR_OK, Some c, s') \<and>
     c \<notin> dom (ctxs demo_state) \<and> ctxs s' c = Some cx \<and> ctx_inv s' c \<and> prov_wf s' \<and>
     key cx \<notin> dom (blocks demo_state) \<and> blocks s' (key cx) = Some [0x41, 0x42] \<and>
     key_state cx = 0 \<and> blocks s' 1 = Some [0x41, 0x42]"
  using crypt_alloc_context_ok [of demo_state 1 "[0x41, 0x42]" 2]
  by (simp add: demo_simps)

theorem crypt_alloc_context_failure_clean_witness:
  "crypt_alloc_context True 1 2 (demo_state\<lparr>alloc_fails := (\<lambda>n. n = 6)\<rparr>) =
     Some (CRYPT_ERROR_NO_MEMORY, None, snd (snd (the (crypt_alloc_context True 1 2 (demo_state\<lparr>alloc_fails := (\<lambda>n. n = 6)\<rparr>))))) \<and>
   blocks (snd (snd (the (crypt_alloc_context True 1 2 (demo_state\<lparr>alloc_fails := (\<lambda>n. n = 6)\<rparr>))))) = blocks demo_state"
proof -
  let ?s = "demo_state\<lparr>alloc_fails := (\<lambda>n. n = 6)\<rparr>"
  have run: "crypt_alloc_context True 1 2 ?s = Some (CRYPT_ERROR_NO_MEMORY, None,
      snd (snd (the (crypt_alloc_context True 1 2 ?s))))"
    by (simp add: crypt_alloc_context_def alloc_addr_def malloc_def ctx_upd_def demo_simps
        CRYPT_MAX_KEY_LEN_def)
  have wf: "prov_wf ?s" by (simp add: demo_simps)
  from crypt_alloc_context_failure_clean [OF wf run] run show ?thesis by simp
qed

theorem crypt_buffer_oversized_witness:
  "crypt_buffer 3 2 2 65536 demo_state = Some (crypt_error_code CRYPT_ERROR_NO_MEMORY, demo_state)"
  by (rule crypt_buffer_oversized [of demo_state 3 "demo_ctx 4 2"]) (simp_all add: demo_simps)

theorem crypt_buffer_rejects_parameters_witness:
  "crypt_buffer 3 2 2 0 demo_state = Some (crypt_error_code CRYPT_ERROR_PARAMETER, demo_state)"
  by (rule crypt_buffer_rejects_parameters) simp

theorem crypt_buffer_rejects_empty_key_witness:
  "crypt_buffer 9 2 2 3 demo_state = Some (crypt_error_code CRYPT_ERROR_PARAMETER, demo_state)"
  by (rule crypt_buffer_rejects_empty_key [of demo_state 9 "demo_ctx 10 0"]) (simp_all add: demo_simps)

theorem crypt_alloc_context_rejects_witness:
  "crypt_alloc_context True 1 255 demo_state = Some (CRYPT_ERROR_PARAMETER, None, demo_state)"
  by (rule crypt_alloc_context_rejects) simp

end
