(* ===== verification/Logging.thy ===== *)
theory Logging
  imports Prelude
begin

text \<open>
  The logging helper \<open>debug\<close> of \<open>src/src/util.c\<close>, called through the macros
  \<open>DEBUG_ERR\<close> (\<open>is_error\<close> true) and \<open>DEBUG_INFO\<close> of \<open>src/src/util.h\<close>, and the
  \<open>printf\<close> conversions its callers use. \<open>debug\<close> prints to standard output, the
  stream that also carries the transformed data when no output file is given: a
  prefix \<open>"[crypt!]: "\<close> or \<open>"[crypt+]: "\<close>, the formatted message and a newline.
  \<open>fflush\<close> has no observable effect here. A message is given by its bytes after
  formatting, built from the format string (\<open>ascii\<close>) and the conversions:
  \<open>%s\<close> of a C string is the bytes before its terminator (a heap string is read with
  \<open>load_cstr\<close>, which is undefined past the end of its block; \<open>NULL\<close> is undefined
  too), \<open>%d\<close> of an \<open>int\<close> is its decimal form, \<open>%08x\<close> of an \<open>unsigned int\<close> its
  eight lowercase hexadecimal digits. An argument of another width passed to
  \<open>%d\<close> or \<open>%08x\<close> is read as the low 32 bits the x86-64 calling convention
  delivers.
\<close>

definition ascii :: "string \<Rightarrow> byte list" where
  "ascii cs = map (\<lambda>c. of_nat (of_char c)) cs"

fun dec_digits :: "nat \<Rightarrow> byte list" where
  "dec_digits n = (if n < 10 then [of_nat (48 + n)] else dec_digits (n div 10) @ [of_nat (48 + n mod 10)])"

declare dec_digits.simps [simp del]

definition fmt_d :: "int \<Rightarrow> byte list" where
  "fmt_d i = (if i < 0 then 45 # dec_digits (nat (- i)) else dec_digits (nat i))"

definition hex_digit :: "nat \<Rightarrow> byte" where
  "hex_digit d = of_nat (if d < 10 then 48 + d else 87 + d)"

definition fmt_08x :: "32 word \<Rightarrow> byte list" where
  "fmt_08x w = map (\<lambda>k. hex_digit (unat w div 16 ^ (7 - k) mod 16)) [0..<8]"

text \<open>\<open>%s\<close> of a string outside the heap (an element of \<open>argv\<close>, \<open>None\<close> for
  \<open>NULL\<close>).\<close>

definition fmt_s :: "byte list option \<Rightarrow> byte list option" where
  "fmt_s a = map_option (takeWhile (\<lambda>c. c \<noteq> 0)) a"

definition log_line :: "bool \<Rightarrow> byte list \<Rightarrow> byte list" where
  "log_line is_error msg = ascii (if is_error then ''[crypt!]: '' else ''[crypt+]: '') @ msg @ [10]"

definition debug :: "bool \<Rightarrow> byte list \<Rightarrow> 'a machine_scheme \<Rightarrow> 'a machine_scheme" where
  "debug is_error msg m = m\<lparr>stdout_data := stdout_data m @ log_line is_error msg\<rparr>"

subsection \<open>Lemmas\<close>

text \<open>Evaluation of a formatted message on concrete arguments.\<close>

lemmas fmt_simps = ascii_def fmt_d_def dec_digits.simps fmt_08x_def hex_digit_def fmt_s_def log_line_def

text \<open>A count below \<open>2^31\<close> passed to \<open>%d\<close> prints as itself.\<close>

lemma sint_word_of_nat_small [simp]: "n < 2 ^ 31 \<Longrightarrow> sint (word_of_nat n :: 32 word) = int n"
  by (simp add: signed_of_nat signed_take_bit_int_eq_self)

lemma word_of_nat_mod_32: "(word_of_nat (n mod 2 ^ 32) :: 32 word) = word_of_nat n"
  by (simp add: word_of_nat_eq_iff take_bit_eq_mod)

lemma fold_debug:
  "fold (debug e) msgs m = m\<lparr>stdout_data := stdout_data m @ concat (map (log_line e) msgs)\<rparr>"
  by (induction msgs arbitrary: m) (simp_all add: debug_def)

lemma debug_fields [simp]:
  "blocks (debug e msg m) = blocks m" "next_addr (debug e msg m) = next_addr m"
  "alloc_count (debug e msg m) = alloc_count m" "alloc_fails (debug e msg m) = alloc_fails m"
  "freed (debug e msg m) = freed m" "stdin_rest (debug e msg m) = stdin_rest m"
  "fs (debug e msg m) = fs m" "fs_writable (debug e msg m) = fs_writable m"
  by (simp_all add: debug_def)

lemma stdout_debug [simp]: "stdout_data (debug e msg m) = stdout_data m @ log_line e msg"
  by (simp add: debug_def)

end
