(* ===== verification/Util.thy ===== *)
theory Util
  imports Logging
begin

text \<open>
  The helpers of \<open>src/src/util.c\<close> (declared in \<open>src/src/util.h\<close>): the bounded
  string length \<open>strnlen\<close>, the path check \<open>is_path_valid\<close>, whole-file reading
  \<open>read_file_into_memory\<close>, appending \<open>write_to_file\<close>, the chunk reader
  \<open>read_from_stdin\<close> and the key prompt \<open>get_stdin_user\<close>. They act on the process
  state of \<open>Prelude\<close>: standard input is the list \<open>stdin_rest\<close>, files are the map
  \<open>fs\<close> from path bytes to contents, buffers are heap blocks. A C string argument
  that does not live in the heap (an element of \<open>argv\<close>) is the list of bytes from
  its first character on, terminator included; \<open>None\<close> is \<open>NULL\<close>.
  The characters are \<open>char\<close>, which is signed on the x86-64 targets the tool is built
  for: a byte read into a \<open>char\<close> or \<open>int8_t\<close> is its two's-complement value.
  Every \<open>DEBUG_ERR\<close> and \<open>DEBUG_INFO\<close> of these functions is a \<open>debug\<close> call of
  \<open>Logging\<close>, which prints to standard output.
\<close>

definition MAX_FILE_BUF_SIZE :: "32 word" where
  "MAX_FILE_BUF_SIZE = 65535"

definition MAX_FILE_PATH :: "32 word" where
  "MAX_FILE_PATH = 255"

text \<open>The value of a byte read through a signed \<open>char\<close> or \<open>int8_t\<close>.\<close>

definition signed_char :: "int \<Rightarrow> int" where
  "signed_char c = sint (word_of_int c :: 8 word)"

subsection \<open>\<open>strnlen\<close>\<close>

text \<open>\<open>for (; i < n && s[i] != '\0'; i++)\<close>: reading past the end of the string's
  memory is undefined.\<close>

function strnlen_loop :: "byte list \<Rightarrow> nat \<Rightarrow> nat \<Rightarrow> nat option" where
  "strnlen_loop s n i =
     (if i < n then
        if i < length s then (if s ! i \<noteq> 0 then strnlen_loop s n (Suc i) else Some i) else None
      else Some i)"
  by pat_completeness auto
termination
  by (relation "measure (\<lambda>(s, n, i). n - i)") auto

declare strnlen_loop.simps [simp del]

definition strnlen :: "byte list option \<Rightarrow> 32 word \<Rightarrow> 32 word option" where
  "strnlen s n =
     (case s of
        None \<Rightarrow> Some 0
      | Some cs \<Rightarrow> map_option word_of_nat (strnlen_loop cs (unat n) 0))"

subsection \<open>\<open>is_path_valid\<close>\<close>

text \<open>\<open>stat\<close> succeeds exactly for the paths of the file system.\<close>

definition is_path_valid :: "byte list option \<Rightarrow> 'a machine_scheme \<Rightarrow> bool option" where
  "is_path_valid p m =
     (case p of
        None \<Rightarrow> Some False
      | Some cs \<Rightarrow>
          (case cs of
             [] \<Rightarrow> None
           | c0 # _ \<Rightarrow>
               if c0 = 0 \<or> c0 = 45 then Some False
               else do {
                 n \<leftarrow> strnlen (Some cs) MAX_FILE_PATH;
                 Some (\<not> n \<ge> MAX_FILE_PATH \<and> takeWhile (\<lambda>c. c \<noteq> 0) cs \<in> dom (fs m))
               }))"

subsection \<open>\<open>read_file_into_memory\<close>\<close>

text \<open>
  The result is the returned size, the value left in \<open>*out\<close> (\<open>None\<close> when
  \<open>out\<close> is \<open>NULL\<close> and nothing is written) and the new state. \<open>ftell\<close> is stored
  in a \<open>uint32_t\<close>, so the size is the file length modulo \<open>2^32\<close>; \<open>fread\<close> reads
  that many bytes in full.
\<close>

definition read_file_into_memory :: "byte list option \<Rightarrow> bool \<Rightarrow> 'a machine_scheme \<Rightarrow>
    (32 word \<times> ptr option \<times> 'a machine_scheme) option" where
  "read_file_into_memory path out m =
     (case path of
        None \<Rightarrow> Some (0, None, m)
      | Some p \<Rightarrow>
          if \<not> out then Some (0, None, m)
          else case fs m (takeWhile (\<lambda>c. c \<noteq> 0) p) of
            None \<Rightarrow>
              Some (0, Some 0, debug True (ascii ''read_file: Failed to open file: '' @ takeWhile (\<lambda>c. c \<noteq> 0) p) m)
          | Some data \<Rightarrow>
              let file_size = (word_of_nat (length data) :: 32 word)
              in if file_size \<ge> MAX_FILE_BUF_SIZE
              then Some (0, Some 0, debug True (ascii ''read_file: File exceeds max size: '' @ fmt_d (sint file_size)) m)
              else
                let (buf, m1) = malloc (unat file_size) m
                in if buf = 0
                then Some (0, Some 0, debug True (ascii ''read_file: Failed to allocate memory (size: '' @
                                                   fmt_d (sint file_size) @ ascii '')'') m1)
                else Some (file_size, Some buf,
                           debug False (ascii ''read_file: Successfully read file '' @ takeWhile (\<lambda>c. c \<noteq> 0) p @
                                        ascii '' size: '' @ fmt_d (sint file_size))
                             (m1\<lparr>blocks := (blocks m1)(buf \<mapsto> take (unat file_size) data)\<rparr>)))"

subsection \<open>\<open>write_to_file\<close>\<close>

text \<open>The file name is the C string in the heap block \<open>filename\<close>; \<open>fopen\<close> in
  mode \<open>"ab"\<close> fails for a path that is not writable and otherwise creates the file
  or appends to it; \<open>fwrite\<close> writes the whole buffer.\<close>

definition write_to_file :: "ptr \<Rightarrow> ptr \<Rightarrow> 32 word \<Rightarrow> 'a machine_scheme \<Rightarrow>
    (32 word \<times> 'a machine_scheme) option" where
  "write_to_file filename buf buf_size m =
     (if filename = 0 \<or> buf = 0 \<or> buf_size = 0 then Some (0, m)
      else do {
        name \<leftarrow> load_cstr m filename;
        if \<not> fs_writable m name then Some (0, m)
        else do {
          bs \<leftarrow> blocks m buf;
          if unat buf_size \<le> length bs
          then Some (buf_size, m\<lparr>fs := (fs m)(name \<mapsto>
                  (case fs m name of None \<Rightarrow> [] | Some old \<Rightarrow> old) @ take (unat buf_size) bs)\<rparr>)
          else None
        }
      })"

subsection \<open>\<open>read_from_stdin\<close>\<close>

text \<open>
  \<open>ch\<close> is an \<open>int8_t\<close>, so the byte \<open>0xFF\<close> reads as \<open>-1\<close> and is taken for
  \<open>EOF\<close>, as the real end of input is. \<open>feof(stdin)\<close> only turns true after a read
  has hit the end, when \<open>ch\<close> is \<open>EOF\<close> already, so the test is \<open>ch == EOF\<close>.
\<close>

function read_from_stdin_loop :: "ptr \<Rightarrow> nat \<Rightarrow> nat \<Rightarrow> 'a machine_scheme \<Rightarrow>
    (nat \<times> 'a machine_scheme) option" where
  "read_from_stdin_loop buf buf_max total_read m =
     (if total_read < buf_max then
        let (c, m1) = fgetc m; ch = signed_char c
        in if ch = EOF then Some (total_read, debug False (ascii ''read_from_stdin: Received EOF'') m1)
        else do {
          m2 \<leftarrow> store buf total_read (word_of_int ch) m1;
          read_from_stdin_loop buf buf_max (Suc total_read) m2
        }
      else Some (total_read, m))"
  by pat_completeness auto
termination
  by (relation "measure (\<lambda>(buf, buf_max, total_read, m). buf_max - total_read)") auto

declare read_from_stdin_loop.simps [simp del]

definition read_from_stdin :: "ptr \<Rightarrow> 32 word \<Rightarrow> 'a machine_scheme \<Rightarrow>
    (32 word \<times> 'a machine_scheme) option" where
  "read_from_stdin buf buf_max_size m =
     (if buf = 0 \<or> buf_max_size = 0 then Some (0, m)
      else map_option (\<lambda>(n, m'). (word_of_nat n, m')) (read_from_stdin_loop buf (unat buf_max_size) 0 m))"

subsection \<open>\<open>get_stdin_user\<close>\<close>

text \<open>
  The loop of the source, with \<open>off\<close> the value of \<open>buf_ptr - buf\<close>: nothing in the
  loop ever advances \<open>buf_ptr\<close>, so every character is stored at offset 0 and the
  size reported through \<open>out_size\<close> is that of the offset. It ends when \<open>getc\<close>
  gives \<open>EOF\<close> or a newline, each other round consuming one byte of input, so it
  terminates on every finite input.
\<close>

function get_stdin_user_loop :: "ptr \<Rightarrow> nat \<Rightarrow> 32 word \<Rightarrow> 'a machine_scheme \<Rightarrow>
    (ptr \<times> 16 word \<times> 'a machine_scheme) option" where
  "get_stdin_user_loop buf off max_size m =
     (let (g, m1) = fgetc m; c = signed_char g
      in if c = EOF \<or> c = 10 then do {
           m2 \<leftarrow> store buf off 0 m1;
           Some (buf, word_of_nat off, m2)
         }
         else do {
           m2 \<leftarrow> store buf off (word_of_int c) m1;
           if off \<ge> unat max_size then do {
             m3 \<leftarrow> free buf (debug True (ascii ''get_stdin_user: max buffersize reached'') m2);
             Some (0, 0, m3)
           }
           else get_stdin_user_loop buf off max_size m2
         })"
  by pat_completeness auto
termination
  by (relation "measure (\<lambda>(buf, off, max_size, m). length (stdin_rest m))")
    (auto simp: fgetc_def store_eq_Some_iff signed_char_def EOF_def split: list.splits)

declare get_stdin_user_loop.simps [simp del]

definition get_stdin_user :: "32 word \<Rightarrow> 'a machine_scheme \<Rightarrow> (ptr \<times> 16 word \<times> 'a machine_scheme) option" where
  "get_stdin_user max_size m =
     (let (buf, m1) = malloc (unat max_size) m
      in if buf = 0 then Some (0, 0, m1) else get_stdin_user_loop buf 0 max_size m1)"

subsection \<open>Stream abstractions\<close>

text \<open>What \<open>read_from_stdin\<close> takes from the input: the bytes before the first
  \<open>0xFF\<close> among the first \<open>r\<close>, and what it leaves (the \<open>0xFF\<close> it stopped at is
  consumed).\<close>

definition stdin_chunk :: "byte list \<Rightarrow> nat \<Rightarrow> byte list" where
  "stdin_chunk inp r = takeWhile (\<lambda>c. c \<noteq> 0xFF) (take r inp)"

definition stdin_after :: "byte list \<Rightarrow> nat \<Rightarrow> byte list" where
  "stdin_after inp r =
     (let k = length (stdin_chunk inp r) in if k < r \<and> k < length inp then drop (Suc k) inp else drop k inp)"

text \<open>What \<open>read_from_stdin\<close> prints: the notice of its \<open>EOF\<close> branch when the read
  comes back short.\<close>

abbreviation eof_notice :: "byte list" where
  "eof_notice \<equiv> log_line False (ascii ''read_from_stdin: Received EOF'')"

definition stdin_log :: "byte list \<Rightarrow> nat \<Rightarrow> byte list" where
  "stdin_log inp r = (if length (stdin_chunk inp r) < r then eof_notice else [])"

text \<open>The input left after one line read by \<open>get_stdin_user\<close>: the line and its
  newline (or the \<open>0xFF\<close> taken for \<open>EOF\<close>) are consumed.\<close>

definition line_rest :: "byte list \<Rightarrow> byte list" where
  "line_rest inp = (case dropWhile (\<lambda>c. c \<noteq> 10 \<and> c \<noteq> 0xFF) inp of [] \<Rightarrow> [] | _ # r \<Rightarrow> r)"

text \<open>A process state for the witnesses: the C string \<open>"o"\<close> at 1, a 4-byte
  buffer at 2, input \<open>"AB\n"\<close> then \<open>0xFF\<close> then \<open>"C"\<close>, files \<open>"k"\<close> and \<open>"o"\<close>.\<close>

definition util_demo :: machine where
  "util_demo =
     \<lparr>blocks = [1 \<mapsto> [0x6F, 0], 2 \<mapsto> [9, 9, 9, 9]], next_addr = 3, alloc_count = 0,
      alloc_fails = (\<lambda>_. False), freed = [], stdin_rest = [0x41, 0x42, 0x0A, 0xFF, 0x43],
      stdout_data = [], fs = [[0x6B] \<mapsto> [1, 2, 3], [0x6F] \<mapsto> [7]], fs_writable = (\<lambda>_. True)\<rparr>"

subsection \<open>Lemmas\<close>

lemma strnlen_loop_cstr:
  assumes "0 \<notin> set s" "i \<le> length s"
  shows "strnlen_loop (s @ 0 # t) n i = Some (if n \<le> i then i else min (length s) n)"
  using assms
proof (induction "length s - i" arbitrary: i)
  case 0
  then have "i = length s" by simp
  then show ?case by (simp add: strnlen_loop.simps [of _ n "length s"] nth_append)
next
  case (Suc d)
  then have i: "i < length s" by simp
  then have "s ! i \<noteq> 0" using Suc.prems(1) by (auto dest: nth_mem)
  moreover have "strnlen_loop (s @ 0 # t) n (Suc i) =
      Some (if n \<le> Suc i then Suc i else min (length s) n)"
    using Suc.hyps(2) Suc.prems(1) i by (intro Suc.hyps(1)) auto
  ultimately show ?case
    using i by (auto simp: strnlen_loop.simps [of _ n i] nth_append)
qed

lemma fgetc_Cons [simp]: "stdin_rest m = c # cs \<Longrightarrow> fgetc m = (uint c, m\<lparr>stdin_rest := cs\<rparr>)"
  by (simp add: fgetc_def)

lemma fgetc_Nil [simp]: "stdin_rest m = [] \<Longrightarrow> fgetc m = (EOF, m)"
  by (simp add: fgetc_def)

lemma signed_char_uint: "signed_char (uint (c::byte)) = sint c"
  by (simp add: signed_char_def)

lemma signed_char_EOF [simp]: "signed_char EOF = EOF"
  by (simp add: signed_char_def EOF_def)

lemma sint_byte_eq_EOF: "sint (c::byte) = EOF \<longleftrightarrow> c = 0xFF"
proof
  assume "sint c = EOF"
  then have "sint c = sint (0xFF :: byte)" by (simp add: EOF_def)
  then show "c = 0xFF" using signed_word_eqI by blast
qed (simp add: EOF_def)

lemma word_of_int_sint_byte [simp]: "(word_of_int (sint (c::byte)) :: byte) = c"
  by simp

lemma stdin_chunk_Cons:
  "c \<noteq> 0xFF \<Longrightarrow> stdin_chunk (c # cs) (Suc r) = c # stdin_chunk cs r"
  "stdin_chunk (0xFF # cs) r = []" "stdin_chunk [] r = []" "stdin_chunk inp 0 = []"
  by (simp_all add: stdin_chunk_def take_Cons')

lemma stdin_after_Cons:
  "c \<noteq> 0xFF \<Longrightarrow> stdin_after (c # cs) (Suc r) = stdin_after cs r"
  "stdin_after (0xFF # cs) (Suc r) = cs" "stdin_after [] r = []" "stdin_after inp 0 = inp"
  by (simp_all add: stdin_after_def stdin_chunk_Cons Let_def)

lemma stdin_log_Cons: "c \<noteq> 0xFF \<Longrightarrow> stdin_log (c # cs) (Suc r) = stdin_log cs r"
  by (simp add: stdin_log_def stdin_chunk_Cons)

lemma stdin_chunk_length: "length (stdin_chunk inp r) \<le> r"
  by (simp add: stdin_chunk_def order_trans [OF length_takeWhile_le])

lemma read_from_stdin_loop_spec:
  assumes "blocks m buf = Some bs" "r_max \<le> length bs" "k \<le> r_max"
  shows "read_from_stdin_loop buf r_max k m =
    Some (k + length (stdin_chunk (stdin_rest m) (r_max - k)),
      m\<lparr>blocks := (blocks m)(buf \<mapsto> take k bs @ stdin_chunk (stdin_rest m) (r_max - k) @
                                  drop (k + length (stdin_chunk (stdin_rest m) (r_max - k))) bs),
        stdin_rest := stdin_after (stdin_rest m) (r_max - k),
        stdout_data := stdout_data m @ stdin_log (stdin_rest m) (r_max - k)\<rparr>)"
  using assms
proof (induction "r_max - k" arbitrary: k m bs)
  case 0
  then have k: "k = r_max" by simp
  then show ?case
    using "0.prems"(1)
    by (simp add: read_from_stdin_loop.simps [of buf r_max r_max m] stdin_chunk_Cons stdin_after_Cons
        stdin_log_def map_upd_triv)
next
  case (Suc d)
  then have k: "k < r_max" "k < length bs" by simp_all
  define r where "r = r_max - Suc k"
  have r: "r_max - k = Suc r" "r_max - Suc k = r" using k(1) by (simp_all add: r_def)
  show ?case
  proof (cases "stdin_rest m")
    case Nil
    show ?thesis
      using k Nil Suc.prems(1)
      by (simp add: read_from_stdin_loop.simps [of buf r_max k m] stdin_chunk_Cons stdin_after_Cons
          stdin_log_def debug_def map_upd_triv)
  next
    case (Cons c cs)
    show ?thesis
    proof (cases "c = 0xFF")
      case True
      show ?thesis
        using k Cons True r Suc.prems(1)
        by (simp add: read_from_stdin_loop.simps [of buf r_max k m] signed_char_def EOF_def Let_def
            stdin_chunk_Cons stdin_after_Cons stdin_log_def debug_def map_upd_triv)
    next
      case False
      let ?m2 = "m\<lparr>stdin_rest := cs, blocks := (blocks m)(buf \<mapsto> bs[k := c])\<rparr>"
      have ne: "sint c \<noteq> EOF" using False sint_byte_eq_EOF by blast
      have step: "read_from_stdin_loop buf r_max k m = read_from_stdin_loop buf r_max (Suc k) ?m2"
        using k Cons ne Suc.prems(1)
        by (simp add: read_from_stdin_loop.simps [of buf r_max k m] signed_char_uint store_Some)
      have IH: "read_from_stdin_loop buf r_max (Suc k) ?m2 =
        Some (Suc k + length (stdin_chunk cs r),
          ?m2\<lparr>blocks := (blocks ?m2)(buf \<mapsto> take (Suc k) (bs[k := c]) @ stdin_chunk cs r @
                      drop (Suc k + length (stdin_chunk cs r)) (bs[k := c])),
            stdin_rest := stdin_after cs r, stdout_data := stdout_data ?m2 @ stdin_log cs r\<rparr>)"
      proof -
        have "d = r_max - Suc k" using Suc.hyps(2) by simp
        moreover have "blocks ?m2 buf = Some (bs[k := c])" by simp
        moreover have "r_max \<le> length (bs[k := c])" using Suc.prems(2) by simp
        moreover have "Suc k \<le> r_max" using k by simp
        ultimately show ?thesis using Suc.hyps(1) [of "Suc k" ?m2 "bs[k := c]"] r by simp
      qed
      have blk: "take (Suc k) (bs[k := c]) @ stdin_chunk cs r @ drop (Suc k + length (stdin_chunk cs r)) (bs[k := c]) =
          take k bs @ (c # stdin_chunk cs r) @ drop (k + length (c # stdin_chunk cs r)) bs"
        using k by (simp add: take_Suc_conv_app_nth)
      show ?thesis
        using step IH blk Cons False r by (simp add: stdin_chunk_Cons stdin_after_Cons stdin_log_Cons)
    qed
  qed
qed

lemma read_from_stdin_spec:
  assumes "blocks m buf = Some bs" "0 < buf" "0 < buf_max_size" "unat buf_max_size \<le> length bs"
  shows "read_from_stdin buf buf_max_size m =
    Some (word_of_nat (length (stdin_chunk (stdin_rest m) (unat buf_max_size))),
      m\<lparr>blocks := (blocks m)(buf \<mapsto> stdin_chunk (stdin_rest m) (unat buf_max_size) @
                                  drop (length (stdin_chunk (stdin_rest m) (unat buf_max_size))) bs),
        stdin_rest := stdin_after (stdin_rest m) (unat buf_max_size),
        stdout_data := stdout_data m @ stdin_log (stdin_rest m) (unat buf_max_size)\<rparr>)"
  using assms read_from_stdin_loop_spec [of m buf bs "unat buf_max_size" 0]
  by (simp add: read_from_stdin_def word_gt_0)

lemma signed_char_byte_eq_10: "signed_char (uint (c::byte)) = 10 \<longleftrightarrow> c = 10"
proof
  assume "signed_char (uint c) = 10"
  then have "sint c = sint (10 :: byte)" by (simp add: signed_char_uint)
  then show "c = 10" using signed_word_eqI by blast
qed (simp add: signed_char_def)

lemma get_stdin_user_loop_spec:
  assumes "blocks m buf = Some bs" "off < length bs" "off < unat max_size"
  shows "get_stdin_user_loop buf off max_size m =
     Some (buf, word_of_nat off, m\<lparr>blocks := (blocks m)(buf \<mapsto> bs[off := 0]),
                                  stdin_rest := line_rest (stdin_rest m)\<rparr>)"
  using assms
proof (induction "stdin_rest m" arbitrary: m bs)
  case Nil
  have e: "stdin_rest m = []" using Nil.hyps by simp
  have run: "get_stdin_user_loop buf off max_size m =
      Some (buf, word_of_nat off, m\<lparr>blocks := (blocks m)(buf \<mapsto> bs[off := 0])\<rparr>)"
    using Nil.prems e by (simp add: get_stdin_user_loop.simps [of buf off max_size m] store_Some)
  have "m\<lparr>blocks := (blocks m)(buf \<mapsto> bs[off := 0])\<rparr> =
        m\<lparr>blocks := (blocks m)(buf \<mapsto> bs[off := 0]), stdin_rest := line_rest (stdin_rest m)\<rparr>"
    using e by (cases m) (simp add: line_rest_def)
  with run show ?case by (simp only:)
next
  case (Cons c cs)
  have fg: "fgetc m = (uint c, m\<lparr>stdin_rest := cs\<rparr>)" using Cons.hyps(2) by simp
  show ?case
  proof (cases "c = 10 \<or> c = 0xFF")
    case True
    then have sc: "signed_char (uint c) = EOF \<or> signed_char (uint c) = 10"
      by (auto simp: signed_char_def EOF_def)
    have run: "get_stdin_user_loop buf off max_size m =
        Some (buf, word_of_nat off, m\<lparr>stdin_rest := cs, blocks := (blocks m)(buf \<mapsto> bs[off := 0])\<rparr>)"
      using fg sc Cons.prems by (simp add: get_stdin_user_loop.simps [of buf off max_size m] store_Some)
    have "line_rest (stdin_rest m) = cs"
      using Cons.hyps(2) [symmetric] True by (auto simp: line_rest_def)
    with run show ?thesis by simp
  next
    case False
    then have ne: "signed_char (uint c) \<noteq> EOF" "signed_char (uint c) \<noteq> 10"
      using sint_byte_eq_EOF signed_char_byte_eq_10 by (auto simp: signed_char_uint)
    let ?m2 = "m\<lparr>stdin_rest := cs, blocks := (blocks m)(buf \<mapsto> bs[off := c])\<rparr>"
    have step: "get_stdin_user_loop buf off max_size m = get_stdin_user_loop buf off max_size ?m2"
      using fg ne Cons.prems by (simp add: get_stdin_user_loop.simps [of buf off max_size m]
          store_Some signed_char_uint not_le)
    have "get_stdin_user_loop buf off max_size ?m2 =
       Some (buf, word_of_nat off, ?m2\<lparr>blocks := (blocks ?m2)(buf \<mapsto> (bs[off := c])[off := 0]),
                                    stdin_rest := line_rest (stdin_rest ?m2)\<rparr>)"
      using Cons.prems by (intro Cons.hyps(1)) auto
    moreover have "line_rest (c # cs) = line_rest cs" using False by (simp add: line_rest_def)
    ultimately show ?thesis using step Cons.hyps(2) by simp
  qed
qed

lemma get_stdin_user_loop_size:
  "get_stdin_user_loop buf off max_size m = Some (b, sz, m') \<Longrightarrow> sz = word_of_nat off \<or> sz = 0"
proof (induction buf off max_size m rule: get_stdin_user_loop.induct)
  case (1 buf off max_size m)
  obtain g m1 where fg: "fgetc m = (g, m1)" by fastforce
  let ?c = "signed_char g"
  show ?case
  proof (cases "?c = EOF \<or> ?c = 10")
    case True
    with "1.prems" fg show ?thesis
      by (auto simp: get_stdin_user_loop.simps [of buf off max_size m] bind_eq_Some_conv)
  next
    case False
    with "1.prems" fg obtain m2 where m2: "store buf off (word_of_int ?c) m1 = Some m2"
      and rest: "(if unat max_size \<le> off
                 then free buf (debug True (ascii ''get_stdin_user: max buffersize reached'') m2) \<bind> (\<lambda>m3. Some (0, 0, m3))
                 else get_stdin_user_loop buf off max_size m2) = Some (b, sz, m')"
      by (auto simp: get_stdin_user_loop.simps [of buf off max_size m] bind_eq_Some_conv Let_def)
    show ?thesis
    proof (cases "unat max_size \<le> off")
      case True
      with rest show ?thesis by (auto simp: bind_eq_Some_conv)
    next
      case ge: False
      with rest have "get_stdin_user_loop buf off max_size m2 = Some (b, sz, m')" by simp
      then show ?thesis using "1.IH" [OF fg [symmetric] refl _ False m2 ge] by blast
    qed
  qed
qed

lemma get_stdin_user_defined:
  assumes "heap_wf m" "0 < max_size"
  shows "\<exists>b sz m'. get_stdin_user max_size m = Some (b, sz, m')"
proof (cases "alloc_fails m (alloc_count m)")
  case True
  then show ?thesis by (simp add: get_stdin_user_def malloc_def alloc_addr_def)
next
  case False
  let ?m1 = "m\<lparr>next_addr := Suc (next_addr m), alloc_count := Suc (alloc_count m),
                 blocks := (blocks m)(next_addr m \<mapsto> replicate (unat max_size) 0)\<rparr>"
  have p: "0 < next_addr m" using assms(1) by (simp add: heap_wf_def)
  have u: "0 < unat max_size" using assms(2) by (simp add: unat_gt_0)
  have "\<exists>r. get_stdin_user_loop (next_addr m) 0 max_size ?m1 = Some r"
    using get_stdin_user_loop_spec [where m = ?m1 and buf = "next_addr m" and
        bs = "replicate (unat max_size) 0" and off = 0 and max_size = max_size] u
    by simp
  then show ?thesis using False p by (simp add: get_stdin_user_def malloc_def alloc_addr_def)
qed

lemma write_to_file_appends:
  assumes nz: "0 < filename" "0 < buf" "0 < buf_size" and name: "load_cstr m filename = Some name"
    and w: "fs_writable m name" and b: "blocks m buf = Some bs" and fit: "unat buf_size \<le> length bs"
  shows "write_to_file filename buf buf_size m =
     Some (buf_size, m\<lparr>fs := (fs m)(name \<mapsto> (case fs m name of None \<Rightarrow> [] | Some old \<Rightarrow> old) @
                                               take (unat buf_size) bs)\<rparr>)"
  using assms by (simp add: write_to_file_def)

lemma stdin_chunk_take: "stdin_chunk inp r = take r (takeWhile (\<lambda>c. c \<noteq> 0xFF) inp)"
  by (simp add: stdin_chunk_def takeWhile_take)

lemma stdin_chunk_short:
  assumes "length (stdin_chunk inp r) < r"
  shows "takeWhile (\<lambda>c. c \<noteq> 0xFF) inp = stdin_chunk inp r"
    and "stdin_after inp r = drop (Suc (length (stdin_chunk inp r))) inp"
proof -
  show t: "takeWhile (\<lambda>c. c \<noteq> 0xFF) inp = stdin_chunk inp r"
    using assms by (simp add: stdin_chunk_take min_def split: if_splits)
  have "length (stdin_chunk inp r) \<le> length inp"
    using t [symmetric] length_takeWhile_le by metis
  then show "stdin_after inp r = drop (Suc (length (stdin_chunk inp r))) inp"
    using assms by (auto simp: stdin_after_def Let_def)
qed

lemma stdin_chunk_full:
  assumes "length (stdin_chunk inp r) = r"
  shows "stdin_after inp r = drop r inp"
    and "takeWhile (\<lambda>c. c \<noteq> 0xFF) inp = stdin_chunk inp r @ takeWhile (\<lambda>c. c \<noteq> 0xFF) (drop r inp)"
    and "r \<le> length inp"
proof -
  have le: "r \<le> length (takeWhile (\<lambda>c. c \<noteq> 0xFF) inp)"
    using assms by (simp add: stdin_chunk_take)
  then show ri: "r \<le> length inp" using length_takeWhile_le order_trans by blast
  show "stdin_after inp r = drop r inp" using assms by (simp add: stdin_after_def)
  have "stdin_chunk inp r = take r (take r inp @ takeWhile (\<lambda>c. c \<noteq> 0xFF) (drop r inp))"
    using takeWhile_split_at [OF le] by (simp add: stdin_chunk_take)
  then have "stdin_chunk inp r = take r inp" using ri by simp
  then show "takeWhile (\<lambda>c. c \<noteq> 0xFF) inp = stdin_chunk inp r @ takeWhile (\<lambda>c. c \<noteq> 0xFF) (drop r inp)"
    using takeWhile_split_at [OF le] by simp
qed

lemma read_file_into_memory_run:
  assumes fl: "fs m (takeWhile (\<lambda>c. c \<noteq> 0) p) = Some data"
    and small: "length data mod 2 ^ 32 < 65535" and wf: "heap_wf m"
    and ok: "\<not> alloc_fails m (alloc_count m)"
  shows "read_file_into_memory (Some p) True m =
     Some (word_of_nat (length data), Some (next_addr m),
           m\<lparr>blocks := (blocks m)(next_addr m \<mapsto> take (length data mod 2 ^ 32) data),
             next_addr := Suc (next_addr m), alloc_count := Suc (alloc_count m),
             stdout_data := stdout_data m @ log_line False (ascii ''read_file: Successfully read file '' @
               takeWhile (\<lambda>c. c \<noteq> 0) p @ ascii '' size: '' @ fmt_d (int (length data mod 2 ^ 32)))\<rparr>)"
proof -
  have p: "0 < next_addr m" using wf by (simp add: heap_wf_def)
  have u: "unat (word_of_nat (length data) :: 32 word) = length data mod 2 ^ 32"
    by (simp add: unat_of_nat)
  have lt: "\<not> (word_of_nat (length data) :: 32 word) \<ge> MAX_FILE_BUF_SIZE"
    using small u by (simp add: MAX_FILE_BUF_SIZE_def word_le_nat_alt)
  have "sint (word_of_nat (length data) :: 32 word) = int (length data mod 2 ^ 32)"
  proof -
    have "length data mod 2 ^ 32 < 2 ^ 31" using small by simp
    then have "sint (word_of_nat (length data mod 2 ^ 32) :: 32 word) = int (length data mod 2 ^ 32)"
      by (rule sint_word_of_nat_small)
    then show ?thesis by (simp only: word_of_nat_mod_32)
  qed
  then show ?thesis
    using fl lt u ok p by (simp add: read_file_into_memory_def malloc_def alloc_addr_def Let_def debug_def)
qed

lemma strnlen_cstr_end:
  "0 \<notin> set s \<Longrightarrow> strnlen (Some (s @ [0])) n = Some (word_of_nat (min (length s) (unat n)))"
  using strnlen_loop_cstr [of s 0 "[]" "unat n"] by (simp add: strnlen_def)

lemma is_path_valid_cstr:
  assumes "0 \<notin> set p" "p \<noteq> []" "hd p \<noteq> 45" "length p < 255"
  shows "is_path_valid (Some (p @ [0])) m = Some (p \<in> dom (fs m))"
proof -
  obtain c cs where p: "p = c # cs" using assms(2) by (cases p) auto
  have c: "c \<noteq> 0" "c \<noteq> 45" using assms(1,3) p by auto
  have n: "strnlen (Some (p @ [0])) MAX_FILE_PATH = Some (word_of_nat (length p))"
    using strnlen_cstr_end [OF assms(1)] assms(4) by (simp add: MAX_FILE_PATH_def min_def)
  have lt: "\<not> MAX_FILE_PATH \<le> (word_of_nat (length p) :: 32 word)"
    using assms(4) by (simp add: MAX_FILE_PATH_def word_le_nat_alt unat_of_nat)
  show ?thesis using n lt c p assms(1) by (simp add: is_path_valid_def)
qed

subsection \<open>Properties\<close>

text \<open>C12. read_from_stdin reads the byte 0xFF as end of input: when it comes before the buffer is full, the chunk is the bytes before it, the count is their number, the 0xFF itself is consumed, and the end-of-input notice is printed to standard output.\<close>

theorem read_from_stdin_stops_at_FF:
  assumes b: "blocks m buf = Some bs" "0 < buf" "unat buf_max_size \<le> length bs"
    and inp: "stdin_rest m = xs @ 0xFF # ys" "0xFF \<notin> set xs" "length xs < unat buf_max_size"
  shows "read_from_stdin buf buf_max_size m =
    Some (word_of_nat (length xs),
          m\<lparr>blocks := (blocks m)(buf \<mapsto> xs @ drop (length xs) bs), stdin_rest := ys,
            stdout_data := stdout_data m @ log_line False (ascii ''read_from_stdin: Received EOF'')\<rparr>)"
proof -
  have pos: "0 < buf_max_size" using inp(3) by (auto simp: word_gt_0)
  have tw: "takeWhile (\<lambda>c. c \<noteq> 0xFF) (take (unat buf_max_size) (xs @ 0xFF # ys)) = xs"
  proof -
    have "take (unat buf_max_size) (xs @ 0xFF # ys) = xs @ 0xFF # take (unat buf_max_size - Suc (length xs)) ys"
      using inp(3) by (simp add: take_Cons' not_less_eq_eq)
    moreover have "takeWhile (\<lambda>c. c \<noteq> 0xFF) (xs @ 0xFF # zs) = xs" for zs :: "byte list"
      using inp(2) by (subst takeWhile_append2) auto
    ultimately show ?thesis by simp
  qed
  have ch: "stdin_chunk (stdin_rest m) (unat buf_max_size) = xs"
    using inp(1) tw by (simp add: stdin_chunk_def)
  have af: "stdin_after (stdin_rest m) (unat buf_max_size) = ys"
    using inp(1,3) ch by (simp add: stdin_after_def)
  have lg: "stdin_log (stdin_rest m) (unat buf_max_size) = log_line False (ascii ''read_from_stdin: Received EOF'')"
    using ch inp(3) by (simp add: stdin_log_def)
  show ?thesis
    using read_from_stdin_spec [OF b(1,2) pos b(3)] ch af lg by simp
qed

text \<open>C13. get_stdin_user allocates a zero-filled buffer, consumes one line of input and reports size 0 with an all-zero buffer: every typed character is written at offset 0 and overwritten by the terminating 0.\<close>

theorem get_stdin_user_empty_key:
  assumes wf: "heap_wf m" and ok: "\<not> alloc_fails m (alloc_count m)" and pos: "0 < max_size"
  shows "get_stdin_user max_size m =
     Some (next_addr m, 0, m\<lparr>blocks := (blocks m)(next_addr m \<mapsto> replicate (unat max_size) 0),
                             next_addr := Suc (next_addr m), alloc_count := Suc (alloc_count m),
                             stdin_rest := line_rest (stdin_rest m)\<rparr>)"
proof -
  have p: "0 < next_addr m" using wf by (simp add: heap_wf_def)
  have u: "0 < unat max_size" using pos by (simp add: unat_gt_0)
  let ?m1 = "m\<lparr>next_addr := Suc (next_addr m), alloc_count := Suc (alloc_count m),
                 blocks := (blocks m)(next_addr m \<mapsto> replicate (unat max_size) 0)\<rparr>"
  have mal: "malloc (unat max_size) m = (next_addr m, ?m1)"
    using ok p by (simp add: malloc_def alloc_addr_def)
  have "get_stdin_user_loop (next_addr m) 0 max_size ?m1 =
     Some (next_addr m, word_of_nat 0, ?m1\<lparr>blocks := (blocks ?m1)(next_addr m \<mapsto> (replicate (unat max_size) 0)[0 := 0]),
                                   stdin_rest := line_rest (stdin_rest ?m1)\<rparr>)"
    using u by (intro get_stdin_user_loop_spec) simp_all
  moreover have "(replicate (unat max_size) (0::byte))[0 := 0] = replicate (unat max_size) 0"
    by (cases "unat max_size") simp_all
  ultimately show ?thesis using mal p by (simp add: get_stdin_user_def)
qed

text \<open>C14. Whatever the input, a size returned by get_stdin_user is 0.\<close>

theorem get_stdin_user_size_zero:
  "get_stdin_user max_size m = Some (buf, sz, m') \<Longrightarrow> sz = 0"
  by (auto simp: get_stdin_user_def split: prod.splits if_splits dest: get_stdin_user_loop_size)

text \<open>C15. ftell is kept in a uint32_t: a file of 2^32 + n bytes with n below 65535 passes the size check, and read_file_into_memory returns size n and a block holding only the first n bytes of the file, and reports success with size n.\<close>

theorem read_file_into_memory_wraps:
  assumes fl: "fs m (takeWhile (\<lambda>c. c \<noteq> 0) p) = Some data"
    and len: "length data = 2 ^ 32 + n" "n < 65535" and wf: "heap_wf m"
    and ok: "\<not> alloc_fails m (alloc_count m)"
  shows "read_file_into_memory (Some p) True m =
     Some (word_of_nat n, Some (next_addr m),
           m\<lparr>blocks := (blocks m)(next_addr m \<mapsto> take n data),
             next_addr := Suc (next_addr m), alloc_count := Suc (alloc_count m),
             stdout_data := stdout_data m @ log_line False (ascii ''read_file: Successfully read file '' @
               takeWhile (\<lambda>c. c \<noteq> 0) p @ ascii '' size: '' @ fmt_d (int n))\<rparr>)"
proof -
  have "length data mod 2 ^ 32 = n" using len by simp
  moreover have "(word_of_nat (length data) :: 32 word) = word_of_nat n" using len by simp
  ultimately show ?thesis using read_file_into_memory_run [OF fl _ wf ok] len(2) by simp
qed

text \<open>C16. read_file_into_memory refuses a file of 65535 bytes or more (below 4 GiB): it returns size 0, stores NULL in *out, allocates nothing and only prints its error line, with the size as a signed int.\<close>

theorem read_file_into_memory_too_large:
  "fs m (takeWhile (\<lambda>c. c \<noteq> 0) p) = Some data \<Longrightarrow> 65535 \<le> length data \<Longrightarrow> length data < 2 ^ 32 \<Longrightarrow>
   read_file_into_memory (Some p) True m =
     Some (0, Some 0, m\<lparr>stdout_data := stdout_data m @ log_line True (ascii ''read_file: File exceeds max size: '' @
                                                         fmt_d (sint (word_of_nat (length data) :: 32 word)))\<rparr>)"
  by (simp add: read_file_into_memory_def MAX_FILE_BUF_SIZE_def word_le_nat_alt unat_of_nat Let_def debug_def)

text \<open>C17. Two successive write_to_file calls on the same writable file append the two buffers in call order after the old contents, each returning its size.\<close>

theorem write_to_file_appends_twice:
  assumes nz: "0 < filename" "0 < b1" "0 < b2" "0 < n1" "0 < n2"
    and name: "load_cstr m filename = Some name" "fs_writable m name" "fs m name = Some old"
    and b: "blocks m b1 = Some bs1" "blocks m b2 = Some bs2"
    and fit: "unat n1 \<le> length bs1" "unat n2 \<le> length bs2"
  shows "do { (r1, m1) \<leftarrow> write_to_file filename b1 n1 m;
              (r2, m2) \<leftarrow> write_to_file filename b2 n2 m1;
              Some (r1, r2, fs m2 name) } =
         Some (n1, n2, Some (old @ take (unat n1) bs1 @ take (unat n2) bs2))"
proof -
  let ?m1 = "m\<lparr>fs := (fs m)(name \<mapsto> old @ take (unat n1) bs1)\<rparr>"
  have w1: "write_to_file filename b1 n1 m = Some (n1, ?m1)"
    using write_to_file_appends [OF nz(1,2,4) name(1,2) b(1) fit(1)] name(3) by simp
  have l1: "load_cstr ?m1 filename = Some name" using name(1) by (simp add: load_cstr_def)
  have w2: "write_to_file filename b2 n2 ?m1 =
      Some (n2, ?m1\<lparr>fs := (fs ?m1)(name \<mapsto> (old @ take (unat n1) bs1) @ take (unat n2) bs2)\<rparr>)"
    using write_to_file_appends [OF nz(1,3,5) l1, where bs = bs2] name(2) b(2) fit(2) by simp
  show ?thesis using w1 w2 by simp
qed

text \<open>C18. strnlen on a terminated string returns the length before the first 0, capped at the bound, and never reads past the terminator.\<close>

lemma strnlen_cstr:
  "0 \<notin> set s \<Longrightarrow> strnlen (Some (s @ 0 # t)) n = Some (word_of_nat (min (length s) (unat n)))"
  by (simp add: strnlen_def strnlen_loop_cstr)

subsection \<open>Witnesses\<close>

theorem read_from_stdin_stops_at_FF_witness:
  "read_from_stdin 2 4 util_demo =
     Some (3, util_demo\<lparr>blocks := (blocks util_demo)(2 \<mapsto> [0x41, 0x42, 0x0A, 9]), stdin_rest := [0x43],
                           stdout_data := log_line False (ascii ''read_from_stdin: Received EOF'')\<rparr>)"
  using read_from_stdin_stops_at_FF [of util_demo 2 "[9, 9, 9, 9]" 4 "[0x41, 0x42, 0x0A]" "[0x43]"]
  by (simp add: util_demo_def)

theorem get_stdin_user_empty_key_witness:
  "get_stdin_user 4 util_demo =
     Some (3, 0, util_demo\<lparr>blocks := (blocks util_demo)(3 \<mapsto> replicate 4 0), next_addr := 4,
                            alloc_count := 1, stdin_rest := [0xFF, 0x43]\<rparr>)"
  using get_stdin_user_empty_key [of util_demo 4]
  by (simp add: util_demo_def heap_wf_def line_rest_def)

theorem get_stdin_user_size_zero_witness:
  "\<exists>b m'. get_stdin_user 4 util_demo = Some (b, 0, m')"
proof -
  obtain b sz m' where r: "get_stdin_user 4 util_demo = Some (b, sz, m')"
    using get_stdin_user_defined [of util_demo 4] by (auto simp: util_demo_def heap_wf_def)
  then have "sz = 0" using get_stdin_user_size_zero [of 4 util_demo b sz m'] by simp
  with r show ?thesis by blast
qed

theorem read_file_into_memory_wraps_witness:
  "read_file_into_memory (Some [0x62, 0]) True (util_demo\<lparr>fs := [[0x62] \<mapsto> replicate (2 ^ 32 + 1) 7]\<rparr>) =
     Some (1, Some 3, util_demo\<lparr>fs := [[0x62] \<mapsto> replicate (2 ^ 32 + 1) 7],
                                 blocks := (blocks util_demo)(3 \<mapsto> [7]), next_addr := 4, alloc_count := 1,
                                 stdout_data := log_line False (ascii ''read_file: Successfully read file b size: 1'')\<rparr>)"
  using read_file_into_memory_wraps [of "util_demo\<lparr>fs := [[0x62] \<mapsto> replicate (2 ^ 32 + 1) 7]\<rparr>"
      "[0x62, 0]" "replicate (2 ^ 32 + 1) 7" 1]
  by (simp add: util_demo_def heap_wf_def fmt_simps)

theorem read_file_into_memory_too_large_witness:
  "read_file_into_memory (Some [0x62, 0]) True (util_demo\<lparr>fs := [[0x62] \<mapsto> replicate 65535 0]\<rparr>) =
     Some (0, Some 0, util_demo\<lparr>fs := [[0x62] \<mapsto> replicate 65535 0],
                                 stdout_data := log_line True (ascii ''read_file: File exceeds max size: 65535'')\<rparr>)"
  using read_file_into_memory_too_large [of "util_demo\<lparr>fs := [[0x62] \<mapsto> replicate 65535 0]\<rparr>"
      "[0x62, 0]" "replicate 65535 0"]
  by (simp add: util_demo_def fmt_simps)

theorem write_to_file_appends_twice_witness:
  "do { (r1, m1) \<leftarrow> write_to_file 1 2 2 util_demo;
        (r2, m2) \<leftarrow> write_to_file 1 2 3 m1;
        Some (r1, r2, fs m2 [0x6F]) } = Some (2, 3, Some [7, 9, 9, 9, 9, 9])"
  using write_to_file_appends_twice [of 1 2 2 2 3 util_demo "[0x6F]" "[7]" "[9, 9, 9, 9]" "[9, 9, 9, 9]"]
  by (simp add: util_demo_def load_cstr_def)

theorem strnlen_cstr_witness: "strnlen (Some [0x61, 0x62, 0, 0x63]) 255 = Some 2"
  using strnlen_cstr [of "[0x61, 0x62]" "[0x63]" 255] by simp

end
