(* ===== verification/CryptMain.thy ===== *)
theory CryptMain
  imports CryptProv Util
begin

text \<open>
  The command-line tool of \<open>src/src/cryptmain.c\<close>: the parameter block
  \<open>struct crypt_params\<close> (\<open>src/src/cryptmain.h\<close>), the output writer
  \<open>write_output_buffer\<close>, the two I/O modes \<open>mode_input_file\<close> and
  \<open>mode_input_stdin\<close> and the release of the parameters \<open>free_cli_params\<close>
  (the argument parser and \<open>main\<close> are in \<open>CryptCli\<close>). The parameter blocks live in a
  typed store of the process state beside the contexts of \<open>CryptProv\<close>; every
  buffer they point to is a heap block. Return values of type \<open>int32_t\<close> are
  \<open>32 word\<close> read as two's complement, so \<open>-1\<close> is \<open>0xFFFFFFFF\<close>. The log lines of
  these functions go to standard output with the data: in stdin mode the
  end-of-input notice of \<open>read_from_stdin\<close> lands between the transformed chunks.
\<close>

definition CRYPT_STDIN_BUF_SIZE :: "32 word" where
  "CRYPT_STDIN_BUF_SIZE = 16"

record crypt_params =
  params_key :: ptr
  params_key_size :: "16 word"
  input_buffer :: ptr
  input_buffer_size :: "32 word"
  output_buffer_path :: ptr

record main_state = prov_state +
  params :: "ptr \<rightharpoonup> crypt_params"

text \<open>A parameter block as \<open>calloc\<close> returns it.\<close>

definition params_zero :: crypt_params where
  "params_zero = \<lparr>params_key = 0, params_key_size = 0, input_buffer = 0, input_buffer_size = 0,
                  output_buffer_path = 0\<rparr>"

text \<open>Writing fields of the parameter block at \<open>p\<close>; a write through a pointer
  that is not a live parameter block is undefined.\<close>

definition params_upd :: "ptr \<Rightarrow> (crypt_params \<Rightarrow> crypt_params) \<Rightarrow>
    'a main_state_scheme \<Rightarrow> 'a main_state_scheme option" where
  "params_upd p f s = map_option (\<lambda>pr. s\<lparr>params := (params s)(p \<mapsto> f pr)\<rparr>) (params s p)"

subsection \<open>\<open>write_output_buffer\<close>\<close>

text \<open>With an output path the buffer is appended to that file through
  \<open>write_to_file\<close>; otherwise it is written to standard output, which always
  succeeds.\<close>

definition write_output_buffer :: "ptr \<Rightarrow> ptr \<Rightarrow> 32 word \<Rightarrow> 'a main_state_scheme \<Rightarrow>
    (32 word \<times> 'a main_state_scheme) option" where
  "write_output_buffer pp buf buf_size s =
     (if pp = 0 \<or> buf = 0 \<or> buf_size = 0 then Some (0, s)
      else case params s pp of
        None \<Rightarrow> None
      | Some pr \<Rightarrow>
          if output_buffer_path pr \<noteq> 0 then do {
            (bytes_written, s1) \<leftarrow> write_to_file (output_buffer_path pr) buf buf_size s;
            if bytes_written \<noteq> buf_size
            then Some (bytes_written, debug True (ascii ''Failed to write file: '' @ fmt_d (sint bytes_written) @
                                                  ascii '' written ('' @ fmt_d (sint buf_size) @ ascii '' expected)'') s1)
            else do {
              path \<leftarrow> load_cstr s1 (output_buffer_path pr);
              Some (buf_size, debug False (ascii ''Written output to file '' @ path @ ascii '' (size: '' @
                                           fmt_d (sint buf_size) @ ascii '')'') s1)
            }
          }
          else do {
            bs \<leftarrow> blocks s buf;
            if unat buf_size \<le> length bs
            then Some (buf_size, s\<lparr>stdout_data := stdout_data s @ take (unat buf_size) bs\<rparr>)
            else None
          })"

subsection \<open>\<open>mode_input_file\<close>\<close>

text \<open>The whole input buffer is transformed into a fresh zero-filled output buffer
  and written out. The result of \<open>crypt_buffer\<close> is compared with the input size
  only: an error code that equals the size passes for success. When
  \<open>crypt_buffer\<close> fails the output buffer is not freed.\<close>

definition mode_input_file :: "ptr \<Rightarrow> ptr \<Rightarrow> 'a main_state_scheme \<Rightarrow>
    (32 word \<times> 'a main_state_scheme) option" where
  "mode_input_file c pp s =
     (if c = 0 \<or> pp = 0 then Some (-1, s)
      else case params s pp of
        None \<Rightarrow> None
      | Some pr \<Rightarrow>
          if input_buffer pr = 0 then Some (-1, s)
          else
            let (out_buf, s1) = malloc (unat (input_buffer_size pr)) s
            in if out_buf = 0 then Some (-1, debug True (ascii ''mode_input_file: out of memory'') s1)
            else do {
              (res, s2) \<leftarrow> crypt_buffer c out_buf (input_buffer pr) (input_buffer_size pr) s1;
              if res \<noteq> input_buffer_size pr then Some (res, s2)
              else do {
                (res', s3) \<leftarrow> write_output_buffer pp out_buf (input_buffer_size pr) s2;
                if res' \<noteq> input_buffer_size pr then do {
                  name \<leftarrow> if output_buffer_path pr \<noteq> 0 then load_cstr s3 (output_buffer_path pr)
                          else Some (ascii ''stdout'');
                  s4 \<leftarrow> free out_buf (debug True (ascii ''mode_input_file: failed to write file to: '' @ name) s3);
                  Some (res', s4)
                }
                else do {
                  s4 \<leftarrow> free out_buf s3;
                  Some (0, s4)
                }
              }
            })"

subsection \<open>\<open>mode_input_stdin\<close>\<close>

text \<open>
  The \<open>for (;;)\<close> loop over 16-byte chunks of standard input: clear the stack
  buffer, read a chunk, transform it in place (the result is ignored), write it
  out, and stop after the first chunk shorter than 16 bytes. The loop ends only
  when a read comes back short, so it is a \<open>partial_function\<close>: its value is
  \<open>None\<close> when it does not return. The result is \<open>total_read\<close> and the state.
\<close>

partial_function (option) mode_input_stdin_loop :: "ptr \<Rightarrow> ptr \<Rightarrow> ptr \<Rightarrow> 32 word \<Rightarrow>
    'a main_state_scheme \<Rightarrow> (32 word \<times> 'a main_state_scheme) option" where
  "mode_input_stdin_loop c pp stdin_buf total_read s =
     do {
       s1 \<leftarrow> memset stdin_buf 0 (unat CRYPT_STDIN_BUF_SIZE) s;
       (stdin_buf_read, s2) \<leftarrow> read_from_stdin stdin_buf CRYPT_STDIN_BUF_SIZE s1;
       (_, s3) \<leftarrow> crypt_buffer c stdin_buf stdin_buf stdin_buf_read s2;
       (res, s4) \<leftarrow> write_output_buffer pp stdin_buf stdin_buf_read s3;
       let s5 = (if res \<noteq> stdin_buf_read
                 then debug True (ascii ''Failed to write to stream: 0x'' @ fmt_08x res) s4 else s4);
       if stdin_buf_read < CRYPT_STDIN_BUF_SIZE then Some (total_read + stdin_buf_read, s5)
       else mode_input_stdin_loop c pp stdin_buf (total_read + stdin_buf_read) s5
     }"

definition mode_input_stdin :: "ptr \<Rightarrow> ptr \<Rightarrow> 'a main_state_scheme \<Rightarrow>
    (32 word \<times> 'a main_state_scheme) option" where
  "mode_input_stdin c pp s =
     (if c = 0 \<or> pp = 0 then Some (-1, s)
      else
        let (stdin_buf, s1) = stack_alloc (unat CRYPT_STDIN_BUF_SIZE) s
        in do {
          (total_read, s2) \<leftarrow> mode_input_stdin_loop c pp stdin_buf 0 s1;
          Some (0, stack_release stdin_buf
                     (debug False (ascii ''mode_input_stdin: total read: '' @ fmt_d (sint total_read)) s2))
        })"

subsection \<open>\<open>free_cli_params\<close>\<close>

text \<open>The key and the input buffer are zeroed and freed, the output path freed,
  then the block itself.\<close>

definition free_cli_params :: "ptr \<Rightarrow> 'a main_state_scheme \<Rightarrow> 'a main_state_scheme option" where
  "free_cli_params pp s =
     (if pp = 0 then Some s
      else case params s pp of
        None \<Rightarrow> None
      | Some pr \<Rightarrow> do {
          s1 \<leftarrow> if params_key pr \<noteq> 0 then do {
                  s' \<leftarrow> memset (params_key pr) 0 (unat (params_key_size pr)) s;
                  free (params_key pr) s'
                } else Some s;
          s2 \<leftarrow> if input_buffer pr \<noteq> 0 then do {
                  s' \<leftarrow> memset (input_buffer pr) 0 (unat (input_buffer_size pr)) s1;
                  free (input_buffer pr) s'
                } else Some s1;
          s3 \<leftarrow> if output_buffer_path pr \<noteq> 0 then free (output_buffer_path pr) s2 else Some s2;
          Some (s3\<lparr>params := (params s3)(pp := None)\<rparr>)
        })"

subsection \<open>The transform as the tool applies it\<close>

text \<open>What one call of \<open>crypt_buffer\<close> on a non-empty chunk does to the key bytes,
  the cursor and the chunk, for a context with key size \<open>ks\<close>: the list algorithm
  of \<open>CryptProv\<close>, or nothing at all for the empty key, which every call refuses
  with \<open>CRYPT_ERROR_PARAMETER\<close>.\<close>

definition crypt_step :: "16 word \<Rightarrow> byte list \<Rightarrow> nat \<Rightarrow> byte list \<Rightarrow> byte list \<times> nat \<times> byte list" where
  "crypt_step ks kb i xs = (if ks = 0 then (kb, i, xs) else crypt_bytes kb i xs)"

text \<open>A process state for the witnesses: a context at 3 with the key \<open>"AB"\<close> at 4,
  a context at 7 with an empty key at 6, parameter blocks for standard input and
  output (9), for the two-byte input file \<open>"hi"\<close> at 11 (10) and for a one-byte
  input (8); standard input is \<open>"AB"\<close>, \<open>0xFF\<close>, \<open>"C"\<close>.\<close>

definition main_demo :: main_state where
  "main_demo =
     \<lparr>blocks = [4 \<mapsto> [0x41, 0x42], 6 \<mapsto> [], 11 \<mapsto> [0x68, 0x69]], next_addr = 12, alloc_count = 0,
      alloc_fails = (\<lambda>_. False), freed = [], stdin_rest = [0x41, 0x42, 0xFF, 0x43], stdout_data = [],
      fs = Map.empty, fs_writable = (\<lambda>_. True),
      ctxs = [3 \<mapsto> demo_ctx 4 2, 7 \<mapsto> demo_ctx 6 0],
      params = [8 \<mapsto> params_zero\<lparr>input_buffer := 11, input_buffer_size := 1\<rparr>, 9 \<mapsto> params_zero,
                10 \<mapsto> params_zero\<lparr>input_buffer := 11, input_buffer_size := 2\<rparr>]\<rparr>"

lemmas main_demo_simps = main_demo_def demo_ctx_def ctx_inv_def prov_wf_def heap_wf_def params_zero_def

subsection \<open>Lemmas\<close>

lemma debug_store_fields [simp]:
  "ctxs (debug e msg s) = ctxs s" "params (debug e msg s) = params s"
  by (simp_all add: debug_def)

lemma crypt_step_length:
  "crypt_step ks kb i xs = (kb', j, ys) \<Longrightarrow> length kb' = length kb \<and> length ys = length xs"
  by (auto simp: crypt_step_def split: if_splits dest: crypt_bytes_length)

lemma crypt_step_append:
  "crypt_step ks k i (xs @ ys) =
     (case crypt_step ks k i xs of (k1, i1, os1) \<Rightarrow>
        case crypt_step ks k1 i1 ys of (k2, i2, os2) \<Rightarrow> (k2, i2, os1 @ os2))"
  by (simp add: crypt_step_def crypt_bytes_append split: prod.split)

lemma crypt_step_Nil: "crypt_step ks kb i [] = (kb, i, [])"
  by (simp add: crypt_step_def)

lemma write_output_buffer_stdout:
  assumes "0 < pp" "0 < buf" "params s pp = Some pr" "output_buffer_path pr = 0"
    "blocks s buf = Some bs" "unat n \<le> length bs"
  shows "write_output_buffer pp buf n s = Some (n, s\<lparr>stdout_data := stdout_data s @ take (unat n) bs\<rparr>)"
  using assms by (cases "n = 0") (simp_all add: write_output_buffer_def)

lemma take_drop_chunk:
  assumes "length xs = 16"
  shows "take (16 * ((16 + n) div 16)) (xs @ ys) = xs @ take (16 * (n div 16)) ys"
    and "drop (16 * ((16 + n) div 16)) (xs @ ys) = drop (16 * (n div 16)) ys"
proof -
  have "16 * ((16 + n) div 16) = 16 + 16 * (n div 16)" using div_add_self1 [of 16 n] by simp
  then show "take (16 * ((16 + n) div 16)) (xs @ ys) = xs @ take (16 * (n div 16)) ys"
    and "drop (16 * ((16 + n) div 16)) (xs @ ys) = drop (16 * (n div 16)) ys"
    using assms by simp_all
qed

lemma stdin_round:
  assumes inv: "ctx_inv s c" "ctxs s c = Some cx" "blocks s (key cx) = Some kb"
    and b: "blocks s b = Some bs" "length bs = 16" "0 < b" "b \<noteq> key cx"
    and p: "0 < c" "0 < pp" "params s pp = Some pr" "output_buffer_path pr = 0"
    and ch: "stdin_chunk (stdin_rest s) 16 = xs"
    and run: "crypt_step (key_size cx) kb (unat (key_state cx)) xs = (kb', j, ys)"
  defines "s4 \<equiv> s\<lparr>blocks := (blocks s)(key cx \<mapsto> kb', b \<mapsto> ys @ replicate (16 - length xs) 0),
                     ctxs := (ctxs s)(c \<mapsto> cx\<lparr>key_state := word_of_nat j\<rparr>),
                     stdin_rest := stdin_after (stdin_rest s) 16,
                     stdout_data := stdout_data s @ stdin_log (stdin_rest s) 16 @ ys\<rparr>"
  shows "mode_input_stdin_loop c pp b tr s =
           (if (word_of_nat (length xs) :: 32 word) < CRYPT_STDIN_BUF_SIZE
            then Some (tr + word_of_nat (length xs), s4)
            else mode_input_stdin_loop c pp b (tr + word_of_nat (length xs)) s4)"
    and "ctx_inv s4 c" "length kb' = length kb" "length xs \<le> 16"
proof -
  have xl: "length xs \<le> 16" using ch stdin_chunk_length by metis
  then show "length xs \<le> 16" .
  let ?blk = "xs @ replicate (16 - length xs) (0::byte)"
  let ?s1 = "s\<lparr>blocks := (blocks s)(b \<mapsto> replicate 16 0)\<rparr>"
  let ?s2 = "?s1\<lparr>blocks := (blocks ?s1)(b \<mapsto> ?blk), stdin_rest := stdin_after (stdin_rest s) 16,
                   stdout_data := stdout_data s @ stdin_log (stdin_rest s) 16\<rparr>"
  let ?n = "word_of_nat (length xs) :: 32 word"
  have un: "unat ?n = length xs" using xl by (simp add: unat_of_nat)
  have m1: "memset b 0 (unat CRYPT_STDIN_BUF_SIZE) s = Some ?s1"
    using b by (simp add: memset_Some CRYPT_STDIN_BUF_SIZE_def)
  have r2: "read_from_stdin b CRYPT_STDIN_BUF_SIZE ?s1 = Some (?n, ?s2)"
    using read_from_stdin_spec [of ?s1 b "replicate 16 0" CRYPT_STDIN_BUF_SIZE] b(3) ch
    by (simp add: CRYPT_STDIN_BUF_SIZE_def)
  have inv2: "ctx_inv ?s2 c" using inv(1,2) b(4) by (simp add: ctx_inv_def)
  have blk2: "blocks ?s2 b = Some ?blk" "blocks ?s2 (key cx) = Some kb" "ctxs ?s2 c = Some cx"
    using b(4) inv(2,3) by simp_all
  have c3: "\<exists>e. crypt_buffer c b b ?n ?s2 = Some (e, ?s2\<lparr>blocks := (blocks ?s2)(key cx \<mapsto> kb', b \<mapsto> ys @ replicate (16 - length xs) 0),
                     ctxs := (ctxs ?s2)(c \<mapsto> cx\<lparr>key_state := word_of_nat j\<rparr>)\<rparr>)
      \<and> ctx_inv (?s2\<lparr>blocks := (blocks ?s2)(key cx \<mapsto> kb', b \<mapsto> ys @ replicate (16 - length xs) 0),
                     ctxs := (ctxs ?s2)(c \<mapsto> cx\<lparr>key_state := word_of_nat j\<rparr>)\<rparr>) c \<and> length kb' = length kb"
  proof (cases "xs = [] \<or> key_size cx = 0")
    case True
    then have "kb' = kb" "j = unat (key_state cx)" "ys = xs" using run by (auto simp: crypt_step_def split: if_splits)
    moreover have "?s2\<lparr>blocks := (blocks ?s2)(key cx \<mapsto> kb, b \<mapsto> ?blk),
                     ctxs := (ctxs ?s2)(c \<mapsto> cx\<lparr>key_state := word_of_nat (unat (key_state cx))\<rparr>)\<rparr> = ?s2"
      using blk2 by (simp add: map_upd_triv fun_upd_twist)
    moreover have "crypt_buffer c b b ?n ?s2 = Some (2, ?s2)"
      using True blk2(3) by (auto simp: crypt_buffer_def)
    ultimately show ?thesis using inv2 by simp
  next
    case False
    then have nz: "key_size cx \<noteq> 0" and ne: "xs \<noteq> []" by simp_all
    have ln: "0 < ?n" "?n \<le> CRYPT_MAX_BUFFER_SIZE" using ne xl
      by (simp_all add: word_less_nat_alt word_le_nat_alt unat_of_nat CRYPT_MAX_BUFFER_SIZE_def)
    have fit: "unat ?n \<le> length ?blk" using un by simp
    have run': "crypt_bytes kb (unat (key_state cx)) (take (unat ?n) ?blk) = (kb', j, ys)"
      using run un nz by (simp add: crypt_step_def)
    note call = crypt_buffer_call [OF inv2 blk2(3) nz blk2(2) blk2(1) blk2(1) p(1) b(3) b(3) ln fit fit b(4) b(4) run']
    have "ys @ drop (unat ?n) ?blk = ys @ replicate (16 - length xs) 0" using un by simp
    then show ?thesis using call by simp
  qed
  then obtain e where c3': "crypt_buffer c b b ?n ?s2 = Some (e, ?s2\<lparr>blocks := (blocks ?s2)(key cx \<mapsto> kb', b \<mapsto> ys @ replicate (16 - length xs) 0),
                     ctxs := (ctxs ?s2)(c \<mapsto> cx\<lparr>key_state := word_of_nat j\<rparr>)\<rparr>)"
    and inv3: "ctx_inv (?s2\<lparr>blocks := (blocks ?s2)(key cx \<mapsto> kb', b \<mapsto> ys @ replicate (16 - length xs) 0),
                     ctxs := (ctxs ?s2)(c \<mapsto> cx\<lparr>key_state := word_of_nat j\<rparr>)\<rparr>) c"
    and lk: "length kb' = length kb" by blast
  then show "length kb' = length kb" by simp
  have ly: "length ys = length xs" using crypt_step_length [OF run] by simp
  let ?s3 = "?s2\<lparr>blocks := (blocks ?s2)(key cx \<mapsto> kb', b \<mapsto> ys @ replicate (16 - length xs) 0),
                     ctxs := (ctxs ?s2)(c \<mapsto> cx\<lparr>key_state := word_of_nat j\<rparr>)\<rparr>"
  have "write_output_buffer pp b ?n ?s3 =
      Some (?n, ?s3\<lparr>stdout_data := stdout_data ?s3 @ take (unat ?n) (ys @ replicate (16 - length xs) 0)\<rparr>)"
    using p(3) b(4) un ly by (intro write_output_buffer_stdout [OF p(2) b(3) _ p(4)]) simp_all
  moreover have "?s3\<lparr>stdout_data := stdout_data ?s3 @ take (unat ?n) (ys @ replicate (16 - length xs) 0)\<rparr> = s4"
    using un ly by (simp add: s4_def fun_upd_twist b(4))
  ultimately have w4: "write_output_buffer pp b ?n ?s3 = Some (?n, s4)" by simp
  have "ctx_inv s4 c" using inv3 by (simp add: s4_def ctx_inv_def fun_upd_twist b(4))
  then show "ctx_inv s4 c" .
  show "mode_input_stdin_loop c pp b tr s =
           (if ?n < CRYPT_STDIN_BUF_SIZE then Some (tr + ?n, s4) else mode_input_stdin_loop c pp b (tr + ?n) s4)"
    by (simp only: mode_input_stdin_loop.simps [of c pp b tr s] m1 r2 c3' w4 Option.bind.simps prod.case
        Let_def simp_thms if_False)
qed

lemma ctx_cursor_byte:
  assumes "ctx_inv s c" "ctxs s c = Some cx" "blocks s (key cx) = Some kb"
    "crypt_step (key_size cx) kb (unat (key_state cx)) xs = (kb', j, ys)"
  shows "unat (word_of_nat j :: byte) = j"
proof (cases "key_size cx = 0")
  case True
  then have "j = unat (key_state cx)" using assms(4) by (simp add: crypt_step_def)
  then show ?thesis by (simp add: ucast_id)
next
  case False
  obtain kb0 where f: "blocks s (key cx) = Some kb0" "length kb0 = unat (key_size cx)"
      "unat (key_size cx) < 255"
    using assms(1,2) by (rule ctx_inv_fields)
  have i: "unat (key_state cx) < length kb"
    using ctx_inv_cursor [OF assms(1,2) False] f assms(3) by simp
  have "j < length kb" using crypt_bytes_cursor [OF _ i] assms(4) False by (simp add: crypt_step_def)
  then show ?thesis using f assms(3) by (simp add: unat_of_nat)
qed

lemma mode_input_stdin_loop_spec:
  assumes inv: "ctx_inv s c" "ctxs s c = Some cx" "blocks s (key cx) = Some kb"
    and b: "blocks s b = Some bs" "length bs = 16" "0 < b" "b \<noteq> key cx"
    and p: "0 < c" "0 < pp" "params s pp = Some pr" "output_buffer_path pr = 0"
    and run: "crypt_step (key_size cx) kb (unat (key_state cx)) (takeWhile (\<lambda>x. x \<noteq> 0xFF) (stdin_rest s)) = (kb', j, ys)"
  shows "\<exists>bb. mode_input_stdin_loop c pp b tr s =
     Some (tr + word_of_nat (length (takeWhile (\<lambda>x. x \<noteq> 0xFF) (stdin_rest s))),
       s\<lparr>blocks := (blocks s)(key cx \<mapsto> kb', b \<mapsto> bb), ctxs := (ctxs s)(c \<mapsto> cx\<lparr>key_state := word_of_nat j\<rparr>),
         stdin_rest := drop (Suc (length (takeWhile (\<lambda>x. x \<noteq> 0xFF) (stdin_rest s)))) (stdin_rest s),
         stdout_data := stdout_data s @ take (16 * (length (takeWhile (\<lambda>x. x \<noteq> 0xFF) (stdin_rest s)) div 16)) ys @
                        eof_notice @ drop (16 * (length (takeWhile (\<lambda>x. x \<noteq> 0xFF) (stdin_rest s)) div 16)) ys\<rparr>) \<and>
       length bb = 16"
  using assms
proof (induction "length (stdin_rest s)" arbitrary: s cx kb bs tr kb' j ys rule: less_induct)
  case less
  let ?inp = "stdin_rest s"
  let ?d = "takeWhile (\<lambda>x. x \<noteq> 0xFF) ?inp"
  let ?xs = "stdin_chunk ?inp 16"
  obtain kb1 j1 ys1 where r1: "crypt_step (key_size cx) kb (unat (key_state cx)) ?xs = (kb1, j1, ys1)"
    by (cases "crypt_step (key_size cx) kb (unat (key_state cx)) ?xs") auto
  note round = stdin_round [OF less.prems(1-11) refl r1]
  define s4 where "s4 = s\<lparr>blocks := (blocks s)(key cx \<mapsto> kb1, b \<mapsto> ys1 @ replicate (16 - length ?xs) 0),
                     ctxs := (ctxs s)(c \<mapsto> cx\<lparr>key_state := word_of_nat j1\<rparr>),
                     stdin_rest := stdin_after ?inp 16, stdout_data := stdout_data s @ stdin_log ?inp 16 @ ys1\<rparr>"
  have ly1: "length ys1 = length ?xs" using crypt_step_length [OF r1] by simp
  show ?case
  proof (cases "length ?xs < 16")
    case True
    note sh = stdin_chunk_short [OF True]
    have lt: "(word_of_nat (length ?xs) :: 32 word) < CRYPT_STDIN_BUF_SIZE"
      using True by (simp add: CRYPT_STDIN_BUF_SIZE_def word_less_nat_alt unat_of_nat)
    have "kb1 = kb'" "j1 = j" "ys1 = ys" using r1 less.prems(12) sh(1) by simp_all
    moreover have "stdin_log ?inp 16 = eof_notice" using True by (simp add: stdin_log_def)
    ultimately show ?thesis
      using round(1) lt sh ly1 True by (intro exI [of _ "ys1 @ replicate (16 - length ?xs) 0"]) simp
  next
    case False
    then have full: "length ?xs = 16" using stdin_chunk_length [of ?inp 16] by simp
    note fu = stdin_chunk_full [OF full]
    have nlt: "\<not> (word_of_nat (length ?xs) :: 32 word) < CRYPT_STDIN_BUF_SIZE"
      using full by (simp add: CRYPT_STDIN_BUF_SIZE_def)
    let ?d' = "takeWhile (\<lambda>x. x \<noteq> 0xFF) (drop 16 ?inp)"
    let ?cx4 = "cx\<lparr>key_state := word_of_nat j1\<rparr>"
    have uj1: "unat (word_of_nat j1 :: byte) = j1"
      using ctx_cursor_byte [OF less.prems(1-3) r1] by simp
    obtain kb2 j2 ys2 where r2: "crypt_step (key_size cx) kb1 j1 ?d' = (kb2, j2, ys2)"
      by (cases "crypt_step (key_size cx) kb1 j1 ?d'") auto
    have comb: "kb2 = kb'" "j2 = j" "ys = ys1 @ ys2"
      using less.prems(12) fu(2) r1 r2 by (simp_all add: crypt_step_append)
    have s4: "stdin_rest s4 = drop 16 ?inp" "ctxs s4 c = Some ?cx4" "blocks s4 (key ?cx4) = Some kb1"
      "blocks s4 b = Some (ys1 @ replicate (16 - length ?xs) 0)" "params s4 pp = Some pr"
      using fu(1) less.prems(7,10) by (simp_all add: s4_def)
    have shorter: "length (stdin_rest s4) < length ?inp" using s4(1) fu(3) by simp
    have IH: "\<exists>bb. mode_input_stdin_loop c pp b (tr + word_of_nat 16) s4 =
       Some (tr + word_of_nat 16 + word_of_nat (length ?d'),
         s4\<lparr>blocks := (blocks s4)(key ?cx4 \<mapsto> kb2, b \<mapsto> bb), ctxs := (ctxs s4)(c \<mapsto> ?cx4\<lparr>key_state := word_of_nat j2\<rparr>),
           stdin_rest := drop (Suc (length ?d')) (stdin_rest s4),
           stdout_data := stdout_data s4 @ take (16 * (length ?d' div 16)) ys2 @ eof_notice @
                          drop (16 * (length ?d' div 16)) ys2\<rparr>) \<and> length bb = 16"
      using less.hyps [OF shorter, where cx = ?cx4 and kb = kb1 and bs = "ys1 @ replicate (16 - length ?xs) 0"
          and tr = "tr + word_of_nat 16" and kb' = kb2 and j = j2 and ys = ys2]
        round(2) round(3) less.prems s4 r2 uj1 ly1 full by (simp add: s4_def)
    then obtain bb where bb: "mode_input_stdin_loop c pp b (tr + word_of_nat 16) s4 =
       Some (tr + word_of_nat 16 + word_of_nat (length ?d'),
         s4\<lparr>blocks := (blocks s4)(key ?cx4 \<mapsto> kb2, b \<mapsto> bb), ctxs := (ctxs s4)(c \<mapsto> ?cx4\<lparr>key_state := word_of_nat j2\<rparr>),
           stdin_rest := drop (Suc (length ?d')) (stdin_rest s4),
           stdout_data := stdout_data s4 @ take (16 * (length ?d' div 16)) ys2 @ eof_notice @
                          drop (16 * (length ?d' div 16)) ys2\<rparr>)" "length bb = 16" by blast
    have len: "length ?d = 16 + length ?d'" using fu(2) full by simp
    have lg: "stdin_log ?inp 16 = []" using full by (simp add: stdin_log_def)
    have ly: "length ys1 = 16" using ly1 full by simp
    have "mode_input_stdin_loop c pp b tr s = mode_input_stdin_loop c pp b (tr + word_of_nat 16) s4"
      using round(1) nlt full by (simp add: s4_def)
    then show ?thesis
      using bb comb len fu(1) lg take_drop_chunk [OF ly, of "length ?d'" ys2]
      by (intro exI [of _ bb]) (simp add: s4_def fun_upd_twist less.prems(7) add.assoc)
  qed
qed

lemma prov_wf_ctx_pos: "prov_wf s \<Longrightarrow> ctxs s c = Some cx \<Longrightarrow> 0 < c"
  by (auto simp: prov_wf_def)

lemma mode_input_stdin_spec:
  assumes wf: "prov_wf s" and inv: "ctx_inv s c" "ctxs s c = Some cx" "blocks s (key cx) = Some kb"
    and p: "0 < pp" "params s pp = Some pr" "output_buffer_path pr = 0"
    and run: "crypt_step (key_size cx) kb (unat (key_state cx)) (takeWhile (\<lambda>x. x \<noteq> 0xFF) (stdin_rest s)) = (kb', j, ys)"
  shows "mode_input_stdin c pp s =
     Some (0, s\<lparr>blocks := (blocks s)(key cx \<mapsto> kb'), next_addr := Suc (next_addr s),
               ctxs := (ctxs s)(c \<mapsto> cx\<lparr>key_state := word_of_nat j\<rparr>),
               stdin_rest := drop (Suc (length (takeWhile (\<lambda>x. x \<noteq> 0xFF) (stdin_rest s)))) (stdin_rest s),
               stdout_data := stdout_data s @ take (16 * (length (takeWhile (\<lambda>x. x \<noteq> 0xFF) (stdin_rest s)) div 16)) ys @
                 eof_notice @ drop (16 * (length (takeWhile (\<lambda>x. x \<noteq> 0xFF) (stdin_rest s)) div 16)) ys @
                 log_line False (ascii ''mode_input_stdin: total read: '' @
                   fmt_d (sint (word_of_nat (length (takeWhile (\<lambda>x. x \<noteq> 0xFF) (stdin_rest s))) :: 32 word)))\<rparr>)"
proof -
  have c0: "0 < c" using wf inv(2) by (rule prov_wf_ctx_pos)
  have hw: "heap_wf s" using wf by (simp add: prov_wf_def)
  let ?b = "next_addr s"
  let ?s1 = "s\<lparr>next_addr := Suc ?b, blocks := (blocks s)(?b \<mapsto> replicate 16 0)\<rparr>"
  have fresh: "blocks s ?b = None" "0 < ?b" using hw by (auto simp: heap_wf_def)
  have bk: "?b \<noteq> key cx" using fresh inv(3) by auto
  have sa: "stack_alloc (unat CRYPT_STDIN_BUF_SIZE) s = (?b, ?s1)"
    by (simp add: stack_alloc_def CRYPT_STDIN_BUF_SIZE_def)
  have inv1: "ctx_inv ?s1 c" using inv(1,2) bk by (simp add: ctx_inv_def)
  obtain bb where loop: "mode_input_stdin_loop c pp ?b 0 ?s1 =
     Some (0 + word_of_nat (length (takeWhile (\<lambda>x. x \<noteq> 0xFF) (stdin_rest s))),
       ?s1\<lparr>blocks := (blocks ?s1)(key cx \<mapsto> kb', ?b \<mapsto> bb), ctxs := (ctxs ?s1)(c \<mapsto> cx\<lparr>key_state := word_of_nat j\<rparr>),
         stdin_rest := drop (Suc (length (takeWhile (\<lambda>x. x \<noteq> 0xFF) (stdin_rest ?s1)))) (stdin_rest ?s1),
         stdout_data := stdout_data ?s1 @ take (16 * (length (takeWhile (\<lambda>x. x \<noteq> 0xFF) (stdin_rest ?s1)) div 16)) ys @
           eof_notice @ drop (16 * (length (takeWhile (\<lambda>x. x \<noteq> 0xFF) (stdin_rest ?s1)) div 16)) ys\<rparr>)"
    using mode_input_stdin_loop_spec [OF inv1, where cx = cx and kb = kb and bs = "replicate 16 0" and pp = pp
        and pr = pr and b = ?b and tr = 0 and kb' = kb' and j = j and ys = ys] inv(2,3) bk fresh c0 p run
    by auto
  have "(blocks s)(?b \<mapsto> replicate 16 0, key cx \<mapsto> kb', ?b \<mapsto> bb, ?b := None) = (blocks s)(key cx \<mapsto> kb')"
    using fresh(1) bk by (simp add: fun_upd_twist fun_upd_idem)
  then show ?thesis
    using c0 p(1) sa loop by (simp add: mode_input_stdin_def stack_release_def debug_def)
qed

lemma mode_input_file_run:
  assumes wf: "prov_wf s" and inv: "ctx_inv s c" "ctxs s c = Some cx" "key_size cx \<noteq> 0"
    and kb: "blocks s (key cx) = Some kb"
    and p: "0 < pp" "params s pp = Some pr" "output_buffer_path pr = 0"
    and d: "blocks s (input_buffer pr) = Some d" "input_buffer pr \<noteq> key cx"
      "unat (input_buffer_size pr) = length d" "d \<noteq> []" "length d \<le> 65535"
    and ok: "\<not> alloc_fails s (alloc_count s)"
    and run: "crypt_bytes kb (unat (key_state cx)) d = (kb', j, ys)"
  shows "mode_input_file c pp s =
     Some (0, s\<lparr>blocks := (blocks s)(key cx \<mapsto> kb'), next_addr := Suc (next_addr s),
               alloc_count := Suc (alloc_count s), freed := freed s @ [ys],
               ctxs := (ctxs s)(c \<mapsto> cx\<lparr>key_state := word_of_nat j\<rparr>),
               stdout_data := stdout_data s @ ys\<rparr>)"
proof -
  have c0: "0 < c" using wf inv(2) by (rule prov_wf_ctx_pos)
  have hw: "heap_wf s" using wf by (simp add: prov_wf_def)
  let ?ob = "next_addr s"
  let ?n = "input_buffer_size pr"
  let ?ib = "input_buffer pr"
  let ?s1 = "s\<lparr>next_addr := Suc ?ob, alloc_count := Suc (alloc_count s), blocks := (blocks s)(?ob \<mapsto> replicate (length d) 0)\<rparr>"
  have fresh: "blocks s ?ob = None" "0 < ?ob" using hw by (auto simp: heap_wf_def)
  have ib0: "0 < ?ib" using heap_wf_live_below [OF hw d(1)] by simp
  have sep: "?ob \<noteq> key cx" "?ob \<noteq> ?ib" using fresh kb d(1) by auto
  have m: "malloc (unat ?n) s = (?ob, ?s1)" using malloc_ok [OF hw ok] d(3) by simp
  have inv1: "ctx_inv ?s1 c" using inv(1,2) sep(1) by (simp add: ctx_inv_def)
  have len: "0 < ?n" "?n \<le> CRYPT_MAX_BUFFER_SIZE"
    using d(3-5) by (simp_all add: word_less_nat_alt word_le_nat_alt CRYPT_MAX_BUFFER_SIZE_def)
  have b1: "ctxs ?s1 c = Some cx" "blocks ?s1 (key cx) = Some kb" "blocks ?s1 ?ib = Some d"
      "blocks ?s1 ?ob = Some (replicate (length d) 0)"
    using inv(2) kb d(1) sep by simp_all
  have fit: "unat ?n \<le> length d" "unat ?n \<le> length (replicate (length d) (0::byte))" using d(3) by simp_all
  have run': "crypt_bytes kb (unat (key_state cx)) (take (unat ?n) d) = (kb', j, ys)" using run d(3) by simp
  note call = crypt_buffer_call [OF inv1 b1(1) inv(3) b1(2) b1(3) b1(4) c0 fresh(2) ib0 len fit sep(1) d(2) run']
  have ly: "length ys = length d" using crypt_bytes_length [OF run] by simp
  let ?s2 = "?s1\<lparr>blocks := (blocks ?s1)(key cx \<mapsto> kb', ?ob \<mapsto> ys @ drop (unat ?n) (replicate (length d) 0)),
                    ctxs := (ctxs ?s1)(c \<mapsto> cx\<lparr>key_state := word_of_nat j\<rparr>)\<rparr>"
  have w: "write_output_buffer pp ?ob ?n ?s2 = Some (?n, ?s2\<lparr>stdout_data := stdout_data ?s2 @ take (unat ?n) (ys @ drop (unat ?n) (replicate (length d) 0))\<rparr>)"
    using p sep(1) ly d(3) fresh(2) by (intro write_output_buffer_stdout) simp_all
  have "(blocks s)(?ob \<mapsto> replicate (length d) 0, key cx \<mapsto> kb', ?ob \<mapsto> ys, ?ob := None) = (blocks s)(key cx \<mapsto> kb')"
    using fresh(1) sep(1) by (simp add: fun_upd_twist fun_upd_idem)
  then show ?thesis
    using c0 p d(1) ib0 m call(1) w ly d(3) fresh(2) sep(1)
    by (simp add: mode_input_file_def free_def fun_upd_twist)
qed

lemma free_cli_params_run:
  assumes "0 < pp" "params s pp = Some pr"
    and k: "0 < params_key pr" "blocks s (params_key pr) = Some kb" "unat (params_key_size pr) \<le> length kb"
    and i: "0 < input_buffer pr" "blocks s (input_buffer pr) = Some ib" "unat (input_buffer_size pr) \<le> length ib"
      "input_buffer pr \<noteq> params_key pr"
    and o: "output_buffer_path pr = 0"
  shows "free_cli_params pp s =
     Some (s\<lparr>blocks := (blocks s)(params_key pr := None, input_buffer pr := None),
             freed := freed s @ [replicate (unat (params_key_size pr)) 0 @ drop (unat (params_key_size pr)) kb,
                                 replicate (unat (input_buffer_size pr)) 0 @ drop (unat (input_buffer_size pr)) ib],
             params := (params s)(pp := None)\<rparr>)"
  using assms by (simp add: free_cli_params_def memset_Some free_Some)

subsection \<open>Properties of the I/O modes\<close>

text \<open>C19. In stdin mode with a non-empty key and output to standard output, mode_input_stdin returns 0 and writes the list transform of the input up to the first 0xFF byte (the 16-byte chunking is invisible in the data), but standard output also carries the log: the end-of-input notice of the last, short read sits between the transform of the full 16-byte chunks and that of the rest, and the total count follows. The key bytes and the cursor end where the transform leaves them, and the 0xFF is consumed.\<close>

theorem mode_input_stdin_encrypts_stream:
  assumes wf: "prov_wf s" and inv: "ctx_inv s c" "ctxs s c = Some cx" "key_size cx \<noteq> 0"
    and kb: "blocks s (key cx) = Some kb"
    and p: "0 < pp" "params s pp = Some pr" "output_buffer_path pr = 0"
    and run: "crypt_bytes kb (unat (key_state cx)) (takeWhile (\<lambda>x. x \<noteq> 0xFF) (stdin_rest s)) = (kb', j, ys)"
  shows "mode_input_stdin c pp s =
     Some (0, s\<lparr>blocks := (blocks s)(key cx \<mapsto> kb'), next_addr := Suc (next_addr s),
               ctxs := (ctxs s)(c \<mapsto> cx\<lparr>key_state := word_of_nat j\<rparr>),
               stdin_rest := drop (Suc (length (takeWhile (\<lambda>x. x \<noteq> 0xFF) (stdin_rest s)))) (stdin_rest s),
               stdout_data := stdout_data s @ take (16 * (length (takeWhile (\<lambda>x. x \<noteq> 0xFF) (stdin_rest s)) div 16)) ys @
                 eof_notice @ drop (16 * (length (takeWhile (\<lambda>x. x \<noteq> 0xFF) (stdin_rest s)) div 16)) ys @
                 log_line False (ascii ''mode_input_stdin: total read: '' @
                   fmt_d (sint (word_of_nat (length (takeWhile (\<lambda>x. x \<noteq> 0xFF) (stdin_rest s))) :: 32 word)))\<rparr>)"
  using mode_input_stdin_spec [OF wf inv(1,2) kb p] run inv(3) by (simp add: crypt_step_def)

text \<open>C20. In stdin mode with an empty key, every crypt_buffer call is refused and its result ignored, so mode_input_stdin writes the input up to the first 0xFF unchanged to standard output, with the same log lines as C19, and still returns 0.\<close>

theorem mode_input_stdin_empty_key_plaintext:
  assumes wf: "prov_wf s" and inv: "ctx_inv s c" "ctxs s c = Some cx" "key_size cx = 0"
    and p: "0 < pp" "params s pp = Some pr" "output_buffer_path pr = 0"
  shows "mode_input_stdin c pp s =
     Some (0, s\<lparr>next_addr := Suc (next_addr s),
               stdin_rest := drop (Suc (length (takeWhile (\<lambda>x. x \<noteq> 0xFF) (stdin_rest s)))) (stdin_rest s),
               stdout_data := stdout_data s @
                 take (16 * (length (takeWhile (\<lambda>x. x \<noteq> 0xFF) (stdin_rest s)) div 16)) (takeWhile (\<lambda>x. x \<noteq> 0xFF) (stdin_rest s)) @
                 eof_notice @
                 drop (16 * (length (takeWhile (\<lambda>x. x \<noteq> 0xFF) (stdin_rest s)) div 16)) (takeWhile (\<lambda>x. x \<noteq> 0xFF) (stdin_rest s)) @
                 log_line False (ascii ''mode_input_stdin: total read: '' @
                   fmt_d (sint (word_of_nat (length (takeWhile (\<lambda>x. x \<noteq> 0xFF) (stdin_rest s))) :: 32 word)))\<rparr>)"
proof -
  obtain kb where kb: "blocks s (key cx) = Some kb"
    using inv(1,2) by (auto simp: ctx_inv_def split: option.splits)
  have "crypt_step (key_size cx) kb (unat (key_state cx)) (takeWhile (\<lambda>x. x \<noteq> 0xFF) (stdin_rest s)) =
      (kb, unat (key_state cx), takeWhile (\<lambda>x. x \<noteq> 0xFF) (stdin_rest s))"
    using inv(3) by (simp add: crypt_step_def)
  note spec = mode_input_stdin_spec [OF wf inv(1,2) kb p this]
  have "(blocks s)(key cx \<mapsto> kb) = blocks s" "(ctxs s)(c \<mapsto> cx\<lparr>key_state := word_of_nat (unat (key_state cx))\<rparr>) = ctxs s"
    using kb inv(2) by (simp_all add: map_upd_triv ucast_id)
  then show ?thesis using spec by simp
qed

text \<open>C21. In file mode with a non-empty key, an input buffer of 1 to 65535 bytes and output to standard output, mode_input_file returns 0, writes the list transform of the input, and frees the output buffer.\<close>

theorem mode_input_file_encrypts:
  assumes wf: "prov_wf s" and inv: "ctx_inv s c" "ctxs s c = Some cx" "key_size cx \<noteq> 0"
    and kb: "blocks s (key cx) = Some kb"
    and p: "0 < pp" "params s pp = Some pr" "output_buffer_path pr = 0"
    and d: "blocks s (input_buffer pr) = Some d" "input_buffer pr \<noteq> key cx"
      "unat (input_buffer_size pr) = length d" "d \<noteq> []" "length d \<le> 65535"
    and ok: "\<not> alloc_fails s (alloc_count s)"
    and run: "crypt_bytes kb (unat (key_state cx)) d = (kb', j, ys)"
  shows "mode_input_file c pp s =
     Some (0, s\<lparr>blocks := (blocks s)(key cx \<mapsto> kb'), next_addr := Suc (next_addr s),
               alloc_count := Suc (alloc_count s), freed := freed s @ [ys],
               ctxs := (ctxs s)(c \<mapsto> cx\<lparr>key_state := word_of_nat j\<rparr>),
               stdout_data := stdout_data s @ ys\<rparr>)"
  by (rule mode_input_file_run [OF wf inv kb p d ok run])

text \<open>C22. mode_input_file takes the result of crypt_buffer for success when it equals the input size: with an empty key and a 2-byte input the error code CRYPT_ERROR_PARAMETER (2) equals the size, so the zero-filled output buffer is written out and 0 is returned.\<close>

theorem mode_input_file_error_code_collision:
  assumes wf: "prov_wf s" and inv: "ctx_inv s c" "ctxs s c = Some cx" "key_size cx = 0"
    and p: "0 < pp" "params s pp = Some pr" "output_buffer_path pr = 0" "0 < input_buffer pr"
      "input_buffer_size pr = 2"
    and ok: "\<not> alloc_fails s (alloc_count s)"
  shows "mode_input_file c pp s =
     Some (0, s\<lparr>next_addr := Suc (next_addr s), alloc_count := Suc (alloc_count s),
               freed := freed s @ [replicate 2 0], stdout_data := stdout_data s @ replicate 2 0\<rparr>)"
proof -
  have c0: "0 < c" using wf inv(2) by (rule prov_wf_ctx_pos)
  have hw: "heap_wf s" using wf by (simp add: prov_wf_def)
  let ?ob = "next_addr s"
  let ?s1 = "s\<lparr>next_addr := Suc ?ob, alloc_count := Suc (alloc_count s), blocks := (blocks s)(?ob \<mapsto> replicate 2 0)\<rparr>"
  have fresh: "blocks s ?ob = None" "0 < ?ob" using hw by (auto simp: heap_wf_def)
  have m: "malloc (unat (input_buffer_size pr)) s = (?ob, ?s1)" using malloc_ok [OF hw ok] p(5) by simp
  have cb: "crypt_buffer c ?ob (input_buffer pr) 2 ?s1 = Some (2, ?s1)"
    using c0 fresh(2) p(4) inv(2,3) by (simp add: crypt_buffer_def)
  have w: "write_output_buffer pp ?ob 2 ?s1 = Some (2, ?s1\<lparr>stdout_data := stdout_data ?s1 @ take (unat (2::32 word)) (replicate 2 0)\<rparr>)"
    using p fresh(2) by (intro write_output_buffer_stdout) simp_all
  have "(blocks s)(?ob \<mapsto> replicate 2 0, ?ob := None) = blocks s"
    using fresh(1) by (simp add: fun_upd_idem)
  then show ?thesis
    using c0 p m cb w fresh(2) by (simp add: mode_input_file_def free_def)
qed

text \<open>C23. When crypt_buffer fails and its error code differs from the input size, mode_input_file returns the code and the output buffer it allocated stays live: it is never freed.\<close>

theorem mode_input_file_leaks_on_error:
  assumes wf: "prov_wf s" and inv: "ctxs s c = Some cx" "key_size cx = 0"
    and p: "0 < pp" "params s pp = Some pr" "0 < input_buffer pr" "input_buffer_size pr \<noteq> 2"
    and ok: "\<not> alloc_fails s (alloc_count s)"
  shows "mode_input_file c pp s =
     Some (2, s\<lparr>next_addr := Suc (next_addr s), alloc_count := Suc (alloc_count s),
               blocks := (blocks s)(next_addr s \<mapsto> replicate (unat (input_buffer_size pr)) 0)\<rparr>)"
proof -
  have c0: "0 < c" using wf inv(1) by (rule prov_wf_ctx_pos)
  have hw: "heap_wf s" using wf by (simp add: prov_wf_def)
  have nz: "0 < next_addr s" using hw by (simp add: heap_wf_def)
  show ?thesis
    using c0 nz p inv malloc_ok [OF hw ok, of "unat (input_buffer_size pr)"]
    by (simp add: mode_input_file_def crypt_buffer_def)
qed

subsection \<open>Witnesses\<close>

theorem mode_input_stdin_encrypts_stream_witness:
  "mode_input_stdin 3 9 main_demo =
     Some (0, main_demo\<lparr>blocks := (blocks main_demo)(4 \<mapsto> [0x41, 0x43]), next_addr := 13,
                          ctxs := (ctxs main_demo)(3 \<mapsto> (demo_ctx 4 2)\<lparr>key_state := 0\<rparr>),
                          stdin_rest := [0x43],
                          stdout_data := eof_notice @ [0, 1] @ log_line False (ascii ''mode_input_stdin: total read: 2'')\<rparr>)"
  using mode_input_stdin_encrypts_stream [where s = main_demo and c = 3 and cx = "demo_ctx 4 2"
      and kb = "[0x41, 0x42]" and pp = 9 and pr = params_zero and kb' = "[0x41, 0x43]" and j = 0
      and ys = "[0, 1]"]
  by (simp add: main_demo_simps fmt_simps)

theorem mode_input_stdin_empty_key_plaintext_witness:
  "mode_input_stdin 7 9 main_demo =
     Some (0, main_demo\<lparr>next_addr := 13, stdin_rest := [0x43],
                          stdout_data := eof_notice @ [0x41, 0x42] @ log_line False (ascii ''mode_input_stdin: total read: 2'')\<rparr>)"
  using mode_input_stdin_empty_key_plaintext [where s = main_demo and c = 7 and cx = "demo_ctx 6 0"
      and pp = 9 and pr = params_zero]
  by (simp add: main_demo_simps fmt_simps)

theorem mode_input_file_encrypts_witness:
  "mode_input_file 3 10 main_demo =
     Some (0, main_demo\<lparr>blocks := (blocks main_demo)(4 \<mapsto> [0x41, 0x43]), next_addr := 13,
                          alloc_count := 1, freed := [[0x29, 0x2A]],
                          ctxs := (ctxs main_demo)(3 \<mapsto> (demo_ctx 4 2)\<lparr>key_state := 0\<rparr>),
                          stdout_data := [0x29, 0x2A]\<rparr>)"
  using mode_input_file_encrypts [where s = main_demo and c = 3 and cx = "demo_ctx 4 2"
      and kb = "[0x41, 0x42]" and pp = 10 and pr = "params_zero\<lparr>input_buffer := 11, input_buffer_size := 2\<rparr>"
      and d = "[0x68, 0x69]" and kb' = "[0x41, 0x43]" and j = 0 and ys = "[0x29, 0x2A]"]
  by (simp add: main_demo_simps)

theorem mode_input_file_error_code_collision_witness:
  "mode_input_file 7 10 main_demo =
     Some (0, main_demo\<lparr>next_addr := 13, alloc_count := 1, freed := [replicate 2 0],
                          stdout_data := replicate 2 0\<rparr>)"
  using mode_input_file_error_code_collision [where s = main_demo and c = 7 and cx = "demo_ctx 6 0"
      and pp = 10 and pr = "params_zero\<lparr>input_buffer := 11, input_buffer_size := 2\<rparr>"]
  by (simp add: main_demo_simps)

theorem mode_input_file_leaks_on_error_witness:
  "mode_input_file 7 8 main_demo =
     Some (2, main_demo\<lparr>next_addr := 13, alloc_count := 1,
                          blocks := (blocks main_demo)(12 \<mapsto> replicate 1 0)\<rparr>)"
  using mode_input_file_leaks_on_error [where s = main_demo and c = 7 and cx = "demo_ctx 6 0"
      and pp = 8 and pr = "params_zero\<lparr>input_buffer := 11, input_buffer_size := 1\<rparr>"]
  by (simp add: main_demo_simps)

end
