(* ===== verification/Params.thy ===== *)
theory Params
  imports CryptMain
begin

text \<open>
  The shape of the parameter block \<open>struct crypt_params\<close> of
  \<open>src/src/cryptmain.h\<close> while \<open>parse_cli_and_load\<close> fills it: each non-null
  pointer field is a live heap block of at least the size recorded beside it (the
  key and the input buffer), the output path is a live block holding a terminator,
  and no two non-null fields share a block. \<open>blocks_grow\<close> says that a step
  only adds blocks; the lemmas here show that the allocations, copies and file reads
  of the argument loop, and the key prompt \<open>get_stdin_user\<close>, keep the heap
  well-formed, only add blocks and return blocks that were fresh.
\<close>

definition live_len :: "'a machine_scheme \<Rightarrow> ptr \<Rightarrow> nat \<Rightarrow> bool" where
  "live_len m p n \<longleftrightarrow> (case blocks m p of None \<Rightarrow> False | Some b \<Rightarrow> n \<le> length b)"

definition live_cstr :: "'a machine_scheme \<Rightarrow> ptr \<Rightarrow> bool" where
  "live_cstr m p \<longleftrightarrow> (case blocks m p of None \<Rightarrow> False | Some b \<Rightarrow> 0 \<in> set b)"

definition params_wf :: "'a main_state_scheme \<Rightarrow> ptr \<Rightarrow> bool" where
  "params_wf s pp \<longleftrightarrow>
     (case params s pp of
        None \<Rightarrow> False
      | Some pr \<Rightarrow>
          (params_key pr \<noteq> 0 \<longrightarrow> live_len s (params_key pr) (unat (params_key_size pr))) \<and>
          (input_buffer pr \<noteq> 0 \<longrightarrow> live_len s (input_buffer pr) (unat (input_buffer_size pr))) \<and>
          (output_buffer_path pr \<noteq> 0 \<longrightarrow> live_cstr s (output_buffer_path pr)) \<and>
          (params_key pr \<noteq> 0 \<and> input_buffer pr \<noteq> 0 \<longrightarrow> params_key pr \<noteq> input_buffer pr) \<and>
          (params_key pr \<noteq> 0 \<and> output_buffer_path pr \<noteq> 0 \<longrightarrow> params_key pr \<noteq> output_buffer_path pr) \<and>
          (input_buffer pr \<noteq> 0 \<and> output_buffer_path pr \<noteq> 0 \<longrightarrow> input_buffer pr \<noteq> output_buffer_path pr))"

definition blocks_grow :: "'a machine_scheme \<Rightarrow> 'b machine_scheme \<Rightarrow> bool" where
  "blocks_grow m m' \<longleftrightarrow> (\<forall>p b. blocks m p = Some b \<longrightarrow> blocks m' p = Some b)"

subsection \<open>Frame and preservation lemmas\<close>

lemma live_len_grow: "live_len m p n \<Longrightarrow> blocks_grow m m' \<Longrightarrow> live_len m' p n"
  by (auto simp: live_len_def blocks_grow_def split: option.splits)

lemma live_cstr_grow: "live_cstr m p \<Longrightarrow> blocks_grow m m' \<Longrightarrow> live_cstr m' p"
  by (auto simp: live_cstr_def blocks_grow_def split: option.splits)

lemma params_wf_frame:
  assumes "params_wf s pp" "params s' pp = params s pp" "blocks_grow s s'"
  shows "params_wf s' pp"
  using assms(1) live_len_grow [OF _ assms(3)] live_cstr_grow [OF _ assms(3)]
  by (simp add: params_wf_def assms(2) split: option.splits)

lemma blocks_grow_refl [simp]: "blocks_grow m m"
  by (simp add: blocks_grow_def)

lemma blocks_grow_trans: "blocks_grow m1 m2 \<Longrightarrow> blocks_grow m2 m3 \<Longrightarrow> blocks_grow m1 m3"
  by (simp add: blocks_grow_def)

lemma malloc_params: "malloc n s = (p, s') \<Longrightarrow> params s' = params s"
  by (auto simp: malloc_def alloc_addr_def split: if_splits)

lemma malloc_grow:
  assumes "heap_wf m" "malloc n m = (p, m')"
  shows "heap_wf m' \<and> blocks_grow m m' \<and> (p \<noteq> 0 \<longrightarrow> blocks m p = None \<and> blocks m' p = Some (replicate n 0))"
proof (cases "p = 0")
  case True
  with assms have "blocks m' = blocks m" "next_addr m' = next_addr m"
    by (auto simp: malloc_def alloc_addr_def heap_wf_def split: if_splits)
  with assms(1) True show ?thesis by (simp add: heap_wf_def blocks_grow_def)
next
  case False
  note f = malloc_fresh [OF assms(2,1) False]
  then show ?thesis by (auto simp: blocks_grow_def domIff)
qed

lemma heap_wf_update: "heap_wf m \<Longrightarrow> blocks m p \<noteq> None \<Longrightarrow> heap_wf (m\<lparr>blocks := (blocks m)(p \<mapsto> v)\<rparr>)"
  by (auto simp: heap_wf_def)

lemma debug_params [simp]: "params (debug e msg s) = params s"
  by (simp add: debug_def)

lemma heap_wf_debug [simp]: "heap_wf (debug e msg m) = heap_wf m"
  by (simp add: heap_wf_def)

lemma blocks_grow_debug [simp]: "blocks_grow m (debug e msg m') = blocks_grow m m'"
  by (simp add: blocks_grow_def)

lemma read_file_grow:
  fixes m :: "'a main_state_scheme"
  assumes wf: "heap_wf m" and r: "read_file_into_memory path True m = Some (bs, out, m')"
  shows "heap_wf m' \<and> blocks_grow m m' \<and> params m' = params m \<and>
         (bs \<noteq> 0 \<longrightarrow> (\<exists>b. out = Some b \<and> 0 < b \<and> blocks m b = None \<and> live_len m' b (unat bs)))"
proof (cases path)
  case None
  then show ?thesis using wf r by (auto simp: read_file_into_memory_def)
next
  case p: (Some p)
  show ?thesis
  proof (cases "fs m (takeWhile (\<lambda>c. c \<noteq> 0) p)")
    case None
    then show ?thesis using wf r p by (auto simp: read_file_into_memory_def)
  next
    case (Some data)
    let ?fsz = "word_of_nat (length data) :: 32 word"
    show ?thesis
    proof (cases "MAX_FILE_BUF_SIZE \<le> ?fsz")
      case True
      then show ?thesis using wf r p Some by (auto simp: read_file_into_memory_def)
    next
      case False
      obtain b m1 where mal: "malloc (unat ?fsz) m = (b, m1)" by fastforce
      note g = malloc_grow [OF wf mal]
      have pm: "params m1 = params m" using malloc_params [OF mal] .
      show ?thesis
      proof (cases "b = 0")
        case True
        then show ?thesis using r p Some False mal g pm by (auto simp: read_file_into_memory_def)
      next
        case b: False
        have m': "bs = ?fsz" "out = Some b"
          "m' = debug False (ascii ''read_file: Successfully read file '' @ takeWhile (\<lambda>c. c \<noteq> 0) p @
                              ascii '' size: '' @ fmt_d (sint ?fsz)) (m1\<lparr>blocks := (blocks m1)(b \<mapsto> take (unat ?fsz) data)\<rparr>)"
          using r p Some False mal b by (auto simp: read_file_into_memory_def Let_def)
        have len: "unat ?fsz \<le> length data" by (simp add: unat_of_nat)
        have "blocks_grow m (m1\<lparr>blocks := (blocks m1)(b \<mapsto> take (unat ?fsz) data)\<rparr>)"
          using g b by (auto simp: blocks_grow_def)
        moreover have "heap_wf (m1\<lparr>blocks := (blocks m1)(b \<mapsto> take (unat ?fsz) data)\<rparr>)"
          using g b by (intro heap_wf_update) auto
        moreover have "0 < b" using b by simp
        ultimately show ?thesis using m' g b pm len by (simp add: live_len_def)
      qed
    qed
  qed
qed

lemma memcpy_from_grow:
  assumes "memcpy_from d src n m = Some m'"
  shows "m' = m \<or> (\<exists>db. blocks m d = Some db \<and> n \<le> length db \<and> n \<le> length src \<and>
                      m' = m\<lparr>blocks := (blocks m)(d \<mapsto> take n src @ drop n db)\<rparr>)"
  using assms by (auto simp: memcpy_from_def split: if_splits option.splits)

lemma params_upd_Some:
  "params_upd p f s = Some s' \<Longrightarrow> \<exists>pr. params s p = Some pr \<and> s' = s\<lparr>params := (params s)(p \<mapsto> f pr)\<rparr>"
  by (auto simp: params_upd_def)

lemma live_len_live: "live_len m p n \<Longrightarrow> blocks m p \<noteq> None"
  by (auto simp: live_len_def split: option.splits)

lemma live_cstr_live: "live_cstr m p \<Longrightarrow> blocks m p \<noteq> None"
  by (auto simp: live_cstr_def split: option.splits)

lemma live_params_upd [simp]:
  "live_len (s\<lparr>params := x\<rparr>) p n = live_len s p n" "live_cstr (s\<lparr>params := x\<rparr>) p = live_cstr s p"
  by (simp_all add: live_len_def live_cstr_def)

lemma params_wf_set:
  assumes wf: "params_wf s pp" and pr: "params s pp = Some pr" and g: "blocks_grow s s1" "params s1 pp = params s pp"
    and fresh: "q = 0 \<or> blocks s q = None"
  shows "params_key pr = 0 \<Longrightarrow> (q \<noteq> 0 \<longrightarrow> live_len s1 q (unat ks)) \<Longrightarrow>
           params_wf (s1\<lparr>params := (params s1)(pp \<mapsto> pr\<lparr>params_key := q, params_key_size := ks\<rparr>)\<rparr>) pp"
    and "input_buffer pr = 0 \<Longrightarrow> (q \<noteq> 0 \<longrightarrow> live_len s1 q (unat n)) \<Longrightarrow>
           params_wf (s1\<lparr>params := (params s1)(pp \<mapsto> pr\<lparr>input_buffer := q, input_buffer_size := n\<rparr>)\<rparr>) pp"
    and "(q \<noteq> 0 \<longrightarrow> live_cstr s1 q) \<Longrightarrow>
           params_wf (s1\<lparr>params := (params s1)(pp \<mapsto> pr\<lparr>output_buffer_path := q\<rparr>)\<rparr>) pp"
proof -
  have old: "params_key pr \<noteq> 0 \<longrightarrow> live_len s (params_key pr) (unat (params_key_size pr))"
    "input_buffer pr \<noteq> 0 \<longrightarrow> live_len s (input_buffer pr) (unat (input_buffer_size pr))"
    "output_buffer_path pr \<noteq> 0 \<longrightarrow> live_cstr s (output_buffer_path pr)"
    "params_key pr \<noteq> 0 \<and> input_buffer pr \<noteq> 0 \<longrightarrow> params_key pr \<noteq> input_buffer pr"
    "params_key pr \<noteq> 0 \<and> output_buffer_path pr \<noteq> 0 \<longrightarrow> params_key pr \<noteq> output_buffer_path pr"
    "input_buffer pr \<noteq> 0 \<and> output_buffer_path pr \<noteq> 0 \<longrightarrow> input_buffer pr \<noteq> output_buffer_path pr"
    using wf pr by (simp_all add: params_wf_def)
  have new: "params_key pr \<noteq> 0 \<longrightarrow> live_len s1 (params_key pr) (unat (params_key_size pr))"
    "input_buffer pr \<noteq> 0 \<longrightarrow> live_len s1 (input_buffer pr) (unat (input_buffer_size pr))"
    "output_buffer_path pr \<noteq> 0 \<longrightarrow> live_cstr s1 (output_buffer_path pr)"
    using old(1-3) live_len_grow [OF _ g(1)] live_cstr_grow [OF _ g(1)] by blast+
  have ne1: "params_key pr \<noteq> 0 \<longrightarrow> q \<noteq> params_key pr" using old(1) fresh live_len_live [of s "params_key pr"] by auto
  have ne2: "input_buffer pr \<noteq> 0 \<longrightarrow> q \<noteq> input_buffer pr" using old(2) fresh live_len_live [of s "input_buffer pr"] by auto
  have ne3: "output_buffer_path pr \<noteq> 0 \<longrightarrow> q \<noteq> output_buffer_path pr" using old(3) fresh live_cstr_live [of s "output_buffer_path pr"] by auto
  have ne4: "params_key pr \<noteq> 0 \<longrightarrow> params_key pr \<noteq> q" "input_buffer pr \<noteq> 0 \<longrightarrow> input_buffer pr \<noteq> q"
    "output_buffer_path pr \<noteq> 0 \<longrightarrow> output_buffer_path pr \<noteq> q"
    using ne1 ne2 ne3 by auto
  note ne = ne1 ne2 ne3 ne4
  show "params_key pr = 0 \<Longrightarrow> (q \<noteq> 0 \<longrightarrow> live_len s1 q (unat ks)) \<Longrightarrow>
           params_wf (s1\<lparr>params := (params s1)(pp \<mapsto> pr\<lparr>params_key := q, params_key_size := ks\<rparr>)\<rparr>) pp"
    using new old ne by (simp add: params_wf_def)
  show "input_buffer pr = 0 \<Longrightarrow> (q \<noteq> 0 \<longrightarrow> live_len s1 q (unat n)) \<Longrightarrow>
           params_wf (s1\<lparr>params := (params s1)(pp \<mapsto> pr\<lparr>input_buffer := q, input_buffer_size := n\<rparr>)\<rparr>) pp"
    using new old ne by (simp add: params_wf_def)
  show "(q \<noteq> 0 \<longrightarrow> live_cstr s1 q) \<Longrightarrow>
           params_wf (s1\<lparr>params := (params s1)(pp \<mapsto> pr\<lparr>output_buffer_path := q\<rparr>)\<rparr>) pp"
    using new old ne by (simp add: params_wf_def)
qed

lemma alloc_copy:
  fixes s :: "'a main_state_scheme"
  assumes wf: "heap_wf s" and m: "malloc n s = (k, s1)" and c: "memcpy_from k src c s1 = Some s2" "c \<le> n"
  shows "heap_wf s2 \<and> blocks_grow s s2 \<and> params s2 = params s \<and> (k = 0 \<or> blocks s k = None) \<and>
         (k \<noteq> 0 \<longrightarrow> (\<exists>b. blocks s2 k = Some b \<and> length b = n \<and> drop c b = replicate (n - c) 0))"
proof -
  note g = malloc_grow [OF wf m]
  have pm: "params s1 = params s" using malloc_params [OF m] .
  consider (same) "s2 = s1"
    | (copy) db where "blocks s1 k = Some db" "c \<le> length db" "c \<le> length src"
        "s2 = s1\<lparr>blocks := (blocks s1)(k \<mapsto> take c src @ drop c db)\<rparr>"
    using memcpy_from_grow [OF c(1)] by blast
  then show ?thesis
  proof cases
    case same
    then show ?thesis using g pm by auto
  next
    case copy
    have k0: "k \<noteq> 0" using copy(1) g by (auto simp: heap_wf_def)
    then have db: "db = replicate n 0" "blocks s k = None" using g copy(1) by auto
    have "heap_wf s2" using g copy(1,4) by (simp add: heap_wf_update)
    moreover have "blocks_grow s s2" using g db(2) copy(4) by (auto simp: blocks_grow_def)
    ultimately show ?thesis using copy db k0 pm c(2) by (simp add: min_def)
  qed
qed

lemma unat_ucast_32_16: "unat (ucast (w :: 32 word) :: 16 word) \<le> unat w"
  by (simp add: unsigned_ucast_eq take_bit_nat_less_eq_self)

lemma read_file_wf:
  fixes s :: "'a main_state_scheme"
  assumes "read_file_into_memory path True s = Some (bs, out, s1)" "heap_wf s" "params_wf s pp"
  shows "heap_wf s1 \<and> params_wf s1 pp"
proof -
  note g = read_file_grow [OF assms(2,1)]
  then have "params s1 pp = params s pp" "blocks_grow s s1" by simp_all
  then have "params_wf s1 pp" by (rule params_wf_frame [OF assms(3)])
  with g show ?thesis by simp
qed

lemma key_set_wf:
  fixes s :: "'a main_state_scheme" and bs :: "32 word"
  assumes wf: "heap_wf s" "params_wf s pp" and pr: "params s pp = Some pr" "params_key pr = 0"
    and m: "malloc (unat bs) s = (k, s1)" and c: "memcpy_from k src (unat bs) s1 = Some s2"
    and u: "params_upd pp (\<lambda>p. p\<lparr>params_key := k, params_key_size := ucast bs\<rparr>) s2 = Some s3"
  shows "heap_wf s3 \<and> params_wf s3 pp"
proof -
  note a = alloc_copy [OF wf(1) m c order_refl]
  have "params s2 pp = params s pp" "blocks_grow s s2" using a by simp_all
  then have pw2: "params_wf s2 pp" by (rule params_wf_frame [OF wf(2)])
  have s3: "s3 = s2\<lparr>params := (params s2)(pp \<mapsto> pr\<lparr>params_key := k, params_key_size := ucast bs\<rparr>)\<rparr>"
    using params_upd_Some [OF u] a pr(1) by auto
  have "k \<noteq> 0 \<longrightarrow> live_len s2 k (unat (ucast bs :: 16 word))"
    using a unat_ucast_32_16 [of bs] by (auto simp: live_len_def)
  moreover have "blocks_grow s s2" "params s2 pp = params s pp" "k = 0 \<or> blocks s k = None"
    using a by simp_all
  ultimately have "params_wf s3 pp"
    unfolding s3 using params_wf_set(1) [OF wf(2) pr(1) _ _ _ pr(2)] by blast
  then show ?thesis using a s3 by (simp add: heap_wf_def)
qed

lemma out_set_wf:
  fixes s :: "'a main_state_scheme"
  assumes wf: "heap_wf s" "params_wf s pp" and pr: "params s pp = Some pr"
    and m: "malloc (unat pl + 4) s = (op, s1)" and c: "memcpy_from op src (unat pl) s1 = Some s2"
    and u: "params_upd pp (output_buffer_path_update (\<lambda>_. op)) s2 = Some s3"
  shows "heap_wf s3 \<and> params_wf s3 pp"
proof -
  note a = alloc_copy [OF wf(1) m c le_add1]
  have s3: "s3 = s2\<lparr>params := (params s2)(pp \<mapsto> pr\<lparr>output_buffer_path := op\<rparr>)\<rparr>"
    using params_upd_Some [OF u] a pr by auto
  have "op \<noteq> 0 \<longrightarrow> live_cstr s2 op"
  proof
    assume "op \<noteq> 0"
    then obtain b where b: "blocks s2 op = Some b" "drop (unat pl) b = replicate 4 0" using a by auto
    then have "0 \<in> set (drop (unat pl) b)" by simp
    then have "0 \<in> set b" by (rule in_set_dropD)
    then show "live_cstr s2 op" using b(1) by (simp add: live_cstr_def)
  qed
  moreover have "blocks_grow s s2" "params s2 pp = params s pp" "op = 0 \<or> blocks s op = None"
    using a by simp_all
  ultimately have "params_wf s3 pp"
    unfolding s3 using params_wf_set(3) [OF wf(2) pr] by blast
  then show ?thesis using a s3 by (simp add: heap_wf_def)
qed

lemma params_upd_heap_wf: "params_upd p f s = Some s' \<Longrightarrow> heap_wf s' = heap_wf s"
  by (drule params_upd_Some) (clarsimp simp: heap_wf_def)

lemma params_upd_wf:
  assumes "params_upd pp f s1 = Some s2" "params s1 pp = Some pr"
    "params_wf (s1\<lparr>params := (params s1)(pp \<mapsto> f pr)\<rparr>) pp" "heap_wf s1"
  shows "heap_wf s2 \<and> params_wf s2 pp"
  using assms params_upd_heap_wf [OF assms(1)] by (auto simp: params_upd_def)

lemma file_set_wf:
  fixes s :: "'a main_state_scheme"
  assumes wf: "heap_wf s" "params_wf s pp" and pr: "params s pp = Some pr"
    and r: "read_file_into_memory path True s = Some (bs, out, s1)" "bs \<noteq> 0"
  shows "params_key pr = 0 \<Longrightarrow>
           params_upd pp (\<lambda>p. p\<lparr>params_key := (case out of None \<Rightarrow> buf | Some b \<Rightarrow> b),
                                  params_key_size := ucast bs\<rparr>) s1 = Some s2 \<Longrightarrow>
           heap_wf s2 \<and> params_wf s2 pp"
    and "input_buffer pr = 0 \<Longrightarrow>
           params_upd pp (\<lambda>p. p\<lparr>input_buffer := (case out of None \<Rightarrow> buf | Some b \<Rightarrow> b),
                                  input_buffer_size := bs\<rparr>) s1 = Some s2 \<Longrightarrow>
           heap_wf s2 \<and> params_wf s2 pp"
proof -
  note g = read_file_grow [OF wf(1) r(1)]
  obtain b where b: "out = Some b" "0 < b" "blocks s b = None" "live_len s1 b (unat bs)" using g r(2) by blast
  have h: "heap_wf s1" "blocks_grow s s1" "params s1 pp = params s pp" "b = 0 \<or> blocks s b = None"
    "params s1 pp = Some pr" using g b(3) pr by simp_all
  have "live_len s1 b (unat (ucast bs :: 16 word))"
    using b(4) unat_ucast_32_16 [of bs] by (auto simp: live_len_def split: option.splits)
  then show "params_key pr = 0 \<Longrightarrow>
           params_upd pp (\<lambda>p. p\<lparr>params_key := (case out of None \<Rightarrow> buf | Some b \<Rightarrow> b),
                                  params_key_size := ucast bs\<rparr>) s1 = Some s2 \<Longrightarrow>
           heap_wf s2 \<and> params_wf s2 pp"
    using params_wf_set(1) [OF wf(2) pr h(2,3,4), of "ucast bs"] params_upd_wf [OF _ h(5) _ h(1)] b(1)
    by simp
  show "input_buffer pr = 0 \<Longrightarrow>
           params_upd pp (\<lambda>p. p\<lparr>input_buffer := (case out of None \<Rightarrow> buf | Some b \<Rightarrow> b),
                                  input_buffer_size := bs\<rparr>) s1 = Some s2 \<Longrightarrow>
           heap_wf s2 \<and> params_wf s2 pp"
    using params_wf_set(2) [OF wf(2) pr h(2,3,4), of bs] params_upd_wf [OF _ h(5) _ h(1)] b(1,4)
    by simp
qed

lemma heap_wf_free_block: "heap_wf m \<Longrightarrow> heap_wf (m\<lparr>blocks := (blocks m)(p := None), freed := fl\<rparr>)"
  by (auto simp: heap_wf_def)

lemma heap_wf_mono: "heap_wf m \<Longrightarrow> blocks m' = blocks m \<Longrightarrow> next_addr m \<le> next_addr m' \<Longrightarrow> heap_wf m'"
  unfolding heap_wf_def by (metis lessThan_subset_iff order_trans less_le_trans)

lemma get_stdin_user_loop_wf:
  fixes m :: "'a main_state_scheme"
  assumes "get_stdin_user_loop buf off mx m = Some (k, sz, m')" "heap_wf m" "blocks m buf \<noteq> None"
  shows "heap_wf m' \<and> params m' = params m \<and> (\<forall>p. p \<noteq> buf \<longrightarrow> blocks m' p = blocks m p) \<and>
         (k \<noteq> 0 \<longrightarrow> k = buf \<and> blocks m' buf \<noteq> None \<and> sz = word_of_nat off)"
  using assms
proof (induction buf off mx m rule: get_stdin_user_loop.induct)
  case (1 buf off mx m)
  obtain g m1 where fg: "fgetc m = (g, m1)" by fastforce
  have m1: "m1 = m \<or> m1 = m\<lparr>stdin_rest := tl (stdin_rest m)\<rparr>"
    using fg by (auto simp: fgetc_def split: list.splits)
  then have m1f: "params m1 = params m" "blocks m1 = blocks m" "next_addr m1 = next_addr m" by auto
  have m1w: "heap_wf m1" using heap_wf_mono [OF "1.prems"(2) m1f(2)] m1f(3) by simp
  let ?c = "signed_char g"
  show ?case
  proof (cases "?c = EOF \<or> ?c = 10")
    case True
    with "1.prems"(1) fg m1f "1.prems"(2,3) heap_wf_update [OF m1w, unfolded m1f(2)] show ?thesis
      by (auto simp: get_stdin_user_loop.simps [of buf off mx m] bind_eq_Some_conv store_eq_Some_iff)
  next
    case False
    with "1.prems"(1) fg obtain m2 where m2: "store buf off (word_of_int ?c) m1 = Some m2"
      and rest: "(if unat mx \<le> off
                 then free buf (debug True (ascii ''get_stdin_user: max buffersize reached'') m2) \<bind> (\<lambda>m3. Some (0, 0, m3))
                 else get_stdin_user_loop buf off mx m2) = Some (k, sz, m')"
      by (auto simp: get_stdin_user_loop.simps [of buf off mx m] bind_eq_Some_conv Let_def)
    have m2f: "heap_wf m2" "params m2 = params m" "\<forall>p. p \<noteq> buf \<longrightarrow> blocks m2 p = blocks m p" "blocks m2 buf \<noteq> None"
      using m2 m1f "1.prems"(2,3) heap_wf_update [OF m1w, unfolded m1f(2)] by (auto simp: store_eq_Some_iff)
    show ?thesis
    proof (cases "unat mx \<le> off")
      case True
      with rest m2f heap_wf_free_block [of "debug True (ascii ''get_stdin_user: max buffersize reached'') m2", simplified]
      show ?thesis by (auto simp: bind_eq_Some_conv free_def split: if_splits option.splits)
    next
      case ge: False
      with rest have "get_stdin_user_loop buf off mx m2 = Some (k, sz, m')" by simp
      then show ?thesis using "1.IH" [OF fg [symmetric] refl _ False m2 ge] m2f by auto
    qed
  qed
qed

lemma get_stdin_user_wf:
  fixes m :: "'a main_state_scheme"
  assumes "heap_wf m" "get_stdin_user mx m = Some (k, sz, m')"
  shows "heap_wf m' \<and> blocks_grow m m' \<and> params m' = params m \<and>
         (k \<noteq> 0 \<longrightarrow> blocks m k = None \<and> live_len m' k (unat sz))"
proof -
  obtain buf m1 where mal: "malloc (unat mx) m = (buf, m1)" by fastforce
  note g = malloc_grow [OF assms(1) mal]
  have pm: "params m1 = params m" using malloc_params [OF mal] .
  show ?thesis
  proof (cases "buf = 0")
    case True
    then show ?thesis using assms(2) mal g pm by (simp add: get_stdin_user_def)
  next
    case False
    then have loop: "get_stdin_user_loop buf 0 mx m1 = Some (k, sz, m')"
      using assms(2) mal by (simp add: get_stdin_user_def)
    note l = get_stdin_user_loop_wf [OF loop] g False
    have "blocks_grow m m'" unfolding blocks_grow_def
    proof (intro allI impI)
      fix p b assume b: "blocks m p = Some b"
      then have "p \<noteq> buf" using l by auto
      then show "blocks m' p = Some b" using l b by (auto simp: blocks_grow_def)
    qed
    then show ?thesis using l pm by (auto simp: live_len_def)
  qed
qed

lemma alloc_addr_main:
  fixes s :: "'a main_state_scheme"
  assumes "heap_wf s" "alloc_addr s = (p, s1)"
  shows "heap_wf s1 \<and> params s1 = params s \<and> blocks s1 = blocks s"
proof -
  have "params s1 = params s \<and> blocks s1 = blocks s \<and> next_addr s \<le> next_addr s1"
    using assms(2) by (auto simp: alloc_addr_def split: if_splits)
  then show ?thesis using heap_wf_mono [OF assms(1)] by blast
qed

lemma params_wf_zero: "params s pp = Some params_zero \<Longrightarrow> params_wf s pp"
  by (simp add: params_wf_def params_zero_def)

lemma live_debug [simp]:
  "live_len (debug e msg m) p n = live_len m p n" "live_cstr (debug e msg m) p = live_cstr m p"
  by (simp_all add: live_len_def live_cstr_def)

lemma params_wf_debug [simp]: "params_wf (debug e msg s) pp = params_wf s pp"
  by (simp add: params_wf_def split: option.splits)

lemma heap_wf_params [simp]: "heap_wf (s\<lparr>params := x\<rparr>) = heap_wf s"
  by (simp add: heap_wf_def)

lemma blocks_grow_debug_left [simp]: "blocks_grow (debug e msg m) m' = blocks_grow m m'"
  by (simp add: blocks_grow_def)

end
