(* ===== verification/CryptCli.thy ===== *)
theory CryptCli
  imports Params
begin

text \<open>
  The command line of \<open>src/src/cryptmain.c\<close>: the argument loop of
  \<open>parse_cli_and_load\<close> (\<open>parse_args\<close>, a \<open>partial_function\<close> because its
  \<open>uint8_t\<close> index can wrap), its failure exit \<open>params_fail\<close>, the log helpers
  \<open>print_help\<close> and \<open>print_cli_params\<close>, and \<open>main\<close>, which prints a banner and
  runs the parser, \<open>print_cli_params\<close>, \<open>crypt_alloc_context\<close>, one I/O mode,
  \<open>crypt_free_context\<close> and \<open>free_cli_params\<close> in sequence. The lemmas evaluate one
  round of the loop per kind of argument and compose them with the run lemmas of
  the I/O modes; the properties state what \<open>main\<close> writes to standard output (data
  and log on one stream) for a key in a file or typed at the prompt, that a key on
  the command line or a missing key path makes the run undefined, that the parser
  does not return for 257 arguments, and what its failure exit leaves behind.
\<close>

subsection \<open>\<open>parse_cli_and_load\<close>\<close>

text \<open>
  \<open>argv\<close> is the list of the argument strings, each with its terminator;
  \<open>argv[argc]\<close> is \<open>NULL\<close>. \<open>strncmp("-x", arg, 2) == 0\<close> holds exactly when the
  argument starts with the two characters \<open>-x\<close>.
\<close>

definition argv_at :: "byte list list \<Rightarrow> nat \<Rightarrow> byte list option" where
  "argv_at argv i = (if i < length argv then Some (argv ! i) else None)"

definition arg_matches :: "byte \<Rightarrow> byte list \<Rightarrow> bool" where
  "arg_matches x a \<longleftrightarrow> take 2 a = [45, x]"

text \<open>
  The \<open>for\<close> loop over the arguments. \<open>curr_arg\<close> is a \<open>uint8_t\<close>: with more
  than 255 arguments it wraps to 0 and the loop goes on, so the loop is a
  \<open>partial_function\<close>. \<open>buf\<close> is the local that \<open>read_file_into_memory\<close> writes
  through its out-pointer. The result says whether the loop ended normally
  (\<open>True\<close>) or jumped to \<open>params_fail\<close> (\<open>False\<close>). Every branch that
  consumes an argument does \<open>curr_arg++\<close> before the loop's own increment, the
  branch of the input file included, so the argument after the input file is
  skipped. The key copied with \<open>-k\<close> and the output path are allocated without a
  check for \<open>NULL\<close>; \<open>sizeof('\0')\<close> is \<open>sizeof(int)\<close>, 4. The error lines that
  print \<open>argv[curr_arg + 1]\<close> with \<open>%s\<close> read \<open>argv[argc]\<close>, which is \<open>NULL\<close>,
  when the flag or the input file is the last argument. The final
  \<open>DEBUG_ERR("Invalid parameter")\<close> of the loop body is unreachable: every branch
  continues or jumps to \<open>params_fail\<close>.
\<close>

partial_function (option) parse_args :: "byte list list \<Rightarrow> ptr \<Rightarrow> 8 word \<Rightarrow> ptr \<Rightarrow>
    'a main_state_scheme \<Rightarrow> (bool \<times> ptr \<times> 'a main_state_scheme) option" where
  "parse_args argv pp curr_arg buf s =
     (if \<not> unat curr_arg < length argv then Some (True, buf, s)
      else
        let a = argv ! unat curr_arg; nxt = argv_at argv (Suc (unat curr_arg))
        in if arg_matches 104 a then Some (False, buf, debug False (ascii ''Printing help...'') s)
        else if arg_matches 107 a then
          (case params s pp of
             None \<Rightarrow> None
           | Some pr \<Rightarrow>
               if params_key pr \<noteq> 0
               then Some (False, buf, debug True (ascii ''Key parameter already set, exiting'') s)
               else do {
                 buf_size \<leftarrow> strnlen nxt (ucast CRYPT_MAX_KEY_LEN);
                 if Suc (unat curr_arg) \<ge> length argv \<or> buf_size \<ge> ucast CRYPT_MAX_KEY_LEN
                 then Some (False, buf, debug True (ascii ''Invalid parameter for -k'') s)
                 else do {
                   let (k, s1) = malloc (unat buf_size) s;
                   s2 \<leftarrow> memcpy_from k (argv ! Suc (unat curr_arg)) (unat buf_size) s1;
                   s3 \<leftarrow> params_upd pp (\<lambda>p. p\<lparr>params_key := k, params_key_size := ucast buf_size\<rparr>) s2;
                   parse_args argv pp (curr_arg + 2) buf s3
                 }
               })
        else if arg_matches 102 a then
          (case params s pp of
             None \<Rightarrow> None
           | Some pr \<Rightarrow>
               if params_key pr \<noteq> 0
               then Some (False, buf, debug True (ascii ''Key parameter already set, exiting'') s)
               else do {
                 valid \<leftarrow> if Suc (unat curr_arg) \<ge> length argv then Some False else is_path_valid nxt s;
                 if \<not> valid then do {
                   path \<leftarrow> fmt_s nxt;
                   Some (False, buf, debug True (ascii ''Invalid parameter for -f, or path not valid: '' @ path) s)
                 }
                 else do {
                   (buf_size, out, s1) \<leftarrow> read_file_into_memory nxt True s;
                   let buf' = (case out of None \<Rightarrow> buf | Some b \<Rightarrow> b);
                   if buf_size = 0 then do {
                     path \<leftarrow> fmt_s nxt;
                     Some (False, buf', debug True (ascii ''Invalid path for -f: '' @ path) s1)
                   }
                   else do {
                     s2 \<leftarrow> params_upd pp (\<lambda>p. p\<lparr>params_key := buf', params_key_size := ucast buf_size\<rparr>) s1;
                     parse_args argv pp (curr_arg + 2) buf' s2
                   }
                 }
               })
        else if arg_matches 111 a then do {
          path_len \<leftarrow> strnlen nxt MAX_FILE_PATH;
          if Suc (unat curr_arg) \<ge> length argv \<or> path_len \<ge> MAX_FILE_PATH
          then Some (False, buf, debug True (ascii ''Invalid specifier for -o'') s)
          else if take 1 (argv ! Suc (unat curr_arg)) = [45] then parse_args argv pp (curr_arg + 2) buf s
          else do {
            let (op, s1) = malloc (unat path_len + 4) s;
            s2 \<leftarrow> memcpy_from op (argv ! Suc (unat curr_arg)) (unat path_len) s1;
            s3 \<leftarrow> params_upd pp (\<lambda>p. p\<lparr>output_buffer_path := op\<rparr>) s2;
            parse_args argv pp (curr_arg + 2) buf s3
          }
        }
        else
          (case params s pp of
             None \<Rightarrow> None
           | Some pr \<Rightarrow>
               if input_buffer pr \<noteq> 0 then Some (False, buf, s)
               else do {
                 valid \<leftarrow> is_path_valid (Some a) s;
                 if \<not> valid then do {
                   path \<leftarrow> fmt_s (Some a);
                   Some (False, buf, debug True (ascii ''Input file '' @ path @ ascii '' does not exist'') s)
                 }
                 else do {
                   (buf_size, out, s1) \<leftarrow> read_file_into_memory (Some a) True s;
                   let buf' = (case out of None \<Rightarrow> buf | Some b \<Rightarrow> b);
                   if buf_size = 0 then do {
                     path \<leftarrow> fmt_s nxt;
                     Some (False, buf', debug True (ascii ''Invalid path for -f: '' @ path) s1)
                   }
                   else do {
                     s2 \<leftarrow> params_upd pp (\<lambda>p. p\<lparr>input_buffer := buf', input_buffer_size := buf_size\<rparr>) s1;
                     parse_args argv pp (curr_arg + 2) buf' s2
                   }
                 }
               }))"

text \<open>The \<open>params_fail\<close> exit: the input buffer is zeroed and freed, the output
  path and the block freed. The key buffer is neither zeroed nor freed.\<close>

definition params_fail :: "ptr \<Rightarrow> 'a main_state_scheme \<Rightarrow> (ptr \<times> 'a main_state_scheme) option" where
  "params_fail pp s =
     (if pp = 0 then Some (0, s)
      else case params s pp of
        None \<Rightarrow> None
      | Some pr \<Rightarrow> do {
          s1 \<leftarrow> if input_buffer pr \<noteq> 0 then do {
                  s' \<leftarrow> memset (input_buffer pr) 0 (unat (input_buffer_size pr)) s;
                  free (input_buffer pr) s'
                } else Some s;
          s2 \<leftarrow> if output_buffer_path pr \<noteq> 0 then free (output_buffer_path pr) s1 else Some s1;
          Some (0, s2\<lparr>params := (params s2)(pp := None)\<rparr>)
        })"

text \<open>The parameter block is allocated without a check for \<open>NULL\<close>. Without
  \<open>-k\<close> or \<open>-f\<close> the key is read from standard input; \<open>get_stdin_user\<close> writes
  the key size through its out-pointer into the block.\<close>

definition parse_cli_and_load :: "byte list list \<Rightarrow> 'a main_state_scheme \<Rightarrow> (ptr \<times> 'a main_state_scheme) option" where
  "parse_cli_and_load argv s =
     (if length argv \<le> 1 then Some (0, s)
      else
        let (pp, s1) = alloc_addr s;
            s2 = (if pp = 0 then s1 else s1\<lparr>params := (params s1)(pp \<mapsto> params_zero)\<rparr>)
        in do {
          (ok, _, s3) \<leftarrow> parse_args argv pp 1 0 s2;
          if \<not> ok then params_fail pp s3
          else case params s3 pp of
            None \<Rightarrow> None
          | Some pr \<Rightarrow>
              if params_key pr \<noteq> 0 then Some (pp, s3)
              else do {
                (k, sz, s4) \<leftarrow> get_stdin_user (ucast CRYPT_MAX_KEY_LEN) (debug False (ascii ''Enter symmetric key: '') s3);
                s5 \<leftarrow> params_upd pp (\<lambda>p. p\<lparr>params_key_size := sz\<rparr>) s4;
                if k = 0 then params_fail pp (debug True (ascii ''Failed to get symmetric key'') s5)
                else do {
                  s6 \<leftarrow> params_upd pp (\<lambda>p. p\<lparr>params_key := k\<rparr>) s5;
                  Some (pp, s6)
                }
              }
        })"

subsection \<open>\<open>print_help\<close> and \<open>print_cli_params\<close>\<close>

definition print_help :: "'a machine_scheme \<Rightarrow> 'a machine_scheme" where
  "print_help m =
     fold (debug False)
       [ascii ''Help: '',
        ascii ''crypt [-h] -k <key> | -f <key_file> [-o <output_file>] [<input_file>]'',
        ascii ''-h'' @ replicate 4 9 @ ascii ''Print this help'',
        ascii ''-k <key>'' @ replicate 3 9 @ ascii ''Supply a key via command line. -k and -f are mutually exclusive'',
        ascii ''-f <key_path>'' @ replicate 2 9 @ ascii ''Supply a key file via standard path'',
        ascii ''-o <out_path>'' @ replicate 2 9 @ ascii ''Encryption output sent to a file rather than stdout'',
        ascii ''[<input_file>]'' @ replicate 2 9 @
          ascii ''Optional parameter that specifies the input buffer as a file, otherwise stdin will be used'' @ [10],
        ascii ''Exiting cleanly.'' @ [10]] m"

text \<open>The key and the input buffer are printed with \<open>%s\<close>: the bytes of their heap
  blocks up to the first \<open>0\<close>, undefined when the block holds none.\<close>

definition print_cli_params :: "ptr \<Rightarrow> 'a main_state_scheme \<Rightarrow> 'a main_state_scheme option" where
  "print_cli_params pp s =
     (if pp = 0 then Some s
      else case params s pp of
        None \<Rightarrow> None
      | Some pr \<Rightarrow> do {
          k \<leftarrow> load_cstr s (params_key pr);
          let s1 = debug False (ascii ''key: '' @ k @ ascii '' (size: '' @ fmt_d (uint (params_key_size pr)) @ ascii '')'') s;
          s2 \<leftarrow> if input_buffer pr \<noteq> 0 then do {
                  ib \<leftarrow> load_cstr s1 (input_buffer pr);
                  Some (debug False (ascii ''input_buf: '' @ ib @ ascii '' (size: '' @
                                     fmt_d (sint (input_buffer_size pr)) @ ascii '')'') s1)
                } else Some (debug False (ascii ''input_buf: stdin'') s1);
          if output_buffer_path pr \<noteq> 0 then do {
            op \<leftarrow> load_cstr s2 (output_buffer_path pr);
            Some (debug False (ascii ''output_buf_path: '' @ op) s2)
          } else Some (debug False (ascii ''output_buf_path: stdout'') s2)
        })"

subsection \<open>\<open>main\<close>\<close>

definition CRYPT_MAIN_VERSION :: string where
  "CRYPT_MAIN_VERSION = ''1.0''"

text \<open>The key size is passed to \<open>crypt_alloc_context\<close>, whose parameter is a
  \<open>uint8_t\<close>: it is truncated modulo 256. The status of the I/O mode is only
  logged; \<open>main\<close> returns 0 once a context exists.\<close>

definition main :: "byte list list \<Rightarrow> 'a main_state_scheme \<Rightarrow> (32 word \<times> 'a main_state_scheme) option" where
  "main argv s =
     do {
       let s0 = debug False (ascii '' [crypt] (v'' @ ascii CRYPT_MAIN_VERSION @ ascii '')'') s;
       let s0' = debug False (ascii ''libcryptprov version: '' @ ascii crypt_get_version_string @ ascii '' (0x'' @
                              fmt_08x (ucast crypt_get_version_long) @ ascii '')'' @ [10]) s0;
       (pp, s1) \<leftarrow> parse_cli_and_load argv s0';
       if pp = 0 then Some (-1, print_help s1)
       else case params s1 pp of
         None \<Rightarrow> None
       | Some pr \<Rightarrow>
           if params_key pr = 0 then Some (-1, print_help s1)
           else do {
             s1' \<leftarrow> print_cli_params pp s1;
             (res, co, s2) \<leftarrow> crypt_alloc_context True (params_key pr) (ucast (params_key_size pr)) s1';
             if res \<noteq> CRYPT_ERROR_OK then do {
               s3 \<leftarrow> free_cli_params pp (debug True (ascii ''Failed to initialize cryptographic context: 0x'' @
                                                   fmt_08x (crypt_error_code res)) s2);
               Some (crypt_error_code res, s3)
             }
             else case co of
               None \<Rightarrow> None
             | Some c \<Rightarrow> do {
                 (res', s3) \<leftarrow> if input_buffer pr \<noteq> 0 then mode_input_file c pp s2 else mode_input_stdin c pp s2;
                 let s3' = (if res' \<noteq> 0 then debug True (ascii ''Failed to process I/O: 0x'' @ fmt_08x res') s3 else s3);
                 s4 \<leftarrow> crypt_free_context c (debug False (ascii ''Cleanup...'') s3');
                 s5 \<leftarrow> free_cli_params pp s4;
                 Some (0, s5)
               }
           }
     }"

text \<open>The two lines \<open>main\<close> prints before it parses the command line.\<close>

abbreviation main_banner :: "'a machine_scheme \<Rightarrow> 'a machine_scheme" where
  "main_banner s \<equiv> debug False (ascii ''libcryptprov version: '' @ ascii crypt_get_version_string @ ascii '' (0x'' @
                      fmt_08x (ucast crypt_get_version_long) @ ascii '')'' @ [10])
                     (debug False (ascii '' [crypt] (v'' @ ascii CRYPT_MAIN_VERSION @ ascii '')'') s)"

subsection \<open>Example state\<close>

text \<open>An empty heap, standard input \<open>"x\n"\<close> then \<open>"hi"\<close>, and three files:
  \<open>"k"\<close> holding 257 bytes \<open>'A'\<close> and a \<open>0\<close>, \<open>"j"\<close> holding \<open>"AB"\<close> and a \<open>0\<close>,
  \<open>"i"\<close> holding \<open>"hi"\<close> and a \<open>0\<close>.\<close>

definition cli_demo :: main_state where
  "cli_demo =
     \<lparr>blocks = Map.empty, next_addr = 1, alloc_count = 0, alloc_fails = (\<lambda>_. False), freed = [],
      stdin_rest = [0x78, 0x0A, 0x68, 0x69], stdout_data = [],
      fs = [[0x6B] \<mapsto> replicate 257 0x41 @ [0], [0x6A] \<mapsto> [0x41, 0x42, 0], [0x69] \<mapsto> [0x68, 0x69, 0]],
      fs_writable = (\<lambda>_. True), ctxs = Map.empty, params = Map.empty\<rparr>"

lemmas cli_demo_simps = cli_demo_def prov_wf_def heap_wf_def

subsection \<open>One round of the argument loop\<close>

lemma arg_matches_cstr: "p \<noteq> [] \<Longrightarrow> hd p \<noteq> 45 \<Longrightarrow> \<not> arg_matches x (p @ [0])"
  by (cases p) (auto simp: arg_matches_def)

lemma parse_args_end: "\<not> unat i < length argv \<Longrightarrow> parse_args argv pp i buf s = Some (True, buf, s)"
  by (simp add: parse_args.simps [of argv pp i buf s])

lemma parse_args_k:
  assumes i: "Suc (unat i) < length argv" "argv ! unat i = [45, 107, 0]" "argv ! Suc (unat i) = k @ [0]"
    and k: "0 \<notin> set k" "length k < 255"
    and pr: "params s pp = Some pr" "params_key pr = 0"
    and wf: "heap_wf s" "\<not> alloc_fails s (alloc_count s)"
  shows "parse_args argv pp i buf s =
     parse_args argv pp (i + 2) buf
       (s\<lparr>next_addr := Suc (next_addr s), alloc_count := Suc (alloc_count s),
          blocks := (blocks s)(next_addr s \<mapsto> k),
          params := (params s)(pp \<mapsto> pr\<lparr>params_key := next_addr s, params_key_size := word_of_nat (length k)\<rparr>)\<rparr>)"
proof -
  have n: "strnlen (argv_at argv (Suc (unat i))) (ucast CRYPT_MAX_KEY_LEN) = Some (word_of_nat (length k))"
    using strnlen_cstr_end [OF k(1)] i(1,3) k(2) by (simp add: argv_at_def CRYPT_MAX_KEY_LEN_def min_def)
  have u: "unat (word_of_nat (length k) :: 32 word) = length k" using k(2) by (simp add: unat_of_nat)
  have lt: "\<not> (ucast CRYPT_MAX_KEY_LEN :: 32 word) \<le> word_of_nat (length k)"
    using k(2) u by (simp add: CRYPT_MAX_KEY_LEN_def word_le_nat_alt)
  have uc: "(ucast (word_of_nat (length k) :: 32 word) :: 16 word) = word_of_nat (length k)"
  proof -
    have "length k < 2 ^ 32" using k(2) by simp
    then have "take_bit 32 (length k) = length k" by (rule take_bit_nat_eq_self)
    then show ?thesis by (simp add: unsigned_of_nat)
  qed
  have cp: "memcpy_from (next_addr s) (k @ [0]) (length k)
      (s\<lparr>next_addr := Suc (next_addr s), alloc_count := Suc (alloc_count s),
          blocks := (blocks s)(next_addr s \<mapsto> replicate (length k) 0)\<rparr>) =
      Some (s\<lparr>next_addr := Suc (next_addr s), alloc_count := Suc (alloc_count s),
          blocks := (blocks s)(next_addr s \<mapsto> k)\<rparr>)"
    by (simp add: memcpy_from_def)
  show ?thesis
    using i n lt u uc cp pr malloc_ok [OF wf, of "length k"]
    by (simp add: parse_args.simps [of argv pp i buf s] arg_matches_def params_upd_def)
qed

lemma parse_args_f:
  assumes i: "Suc (unat i) < length argv" "argv ! unat i = [45, 102, 0]" "argv ! Suc (unat i) = kp @ [0]"
    and kp: "0 \<notin> set kp" "kp \<noteq> []" "hd kp \<noteq> 45" "length kp < 255" "fs s kp = Some kd"
    and kd: "kd \<noteq> []" "length kd < 65535"
    and pr: "params s pp = Some pr" "params_key pr = 0"
    and wf: "heap_wf s" "\<not> alloc_fails s (alloc_count s)"
  shows "parse_args argv pp i buf s =
     parse_args argv pp (i + 2) (next_addr s)
       (s\<lparr>blocks := (blocks s)(next_addr s \<mapsto> kd), next_addr := Suc (next_addr s),
          alloc_count := Suc (alloc_count s),
          stdout_data := stdout_data s @ log_line False (ascii ''read_file: Successfully read file '' @ kp @
                                                          ascii '' size: '' @ fmt_d (int (length kd))),
          params := (params s)(pp \<mapsto> pr\<lparr>params_key := next_addr s, params_key_size := word_of_nat (length kd)\<rparr>)\<rparr>)"
proof -
  have v: "is_path_valid (argv_at argv (Suc (unat i))) s = Some True"
    using is_path_valid_cstr [OF kp(1-4), of s] kp(5) i(1,3) by (simp add: argv_at_def domI)
  have r: "read_file_into_memory (argv_at argv (Suc (unat i))) True s =
     Some (word_of_nat (length kd), Some (next_addr s),
           s\<lparr>blocks := (blocks s)(next_addr s \<mapsto> take (length kd mod 2 ^ 32) kd),
             next_addr := Suc (next_addr s), alloc_count := Suc (alloc_count s),
             stdout_data := stdout_data s @ log_line False (ascii ''read_file: Successfully read file '' @ kp @
                                                          ascii '' size: '' @ fmt_d (int (length kd mod 2 ^ 32)))\<rparr>)"
    using read_file_into_memory_run [of s "kp @ [0]" kd] kp kd wf i(1,3) by (simp add: argv_at_def)
  have m: "length kd mod 2 ^ 32 = length kd" using kd by simp
  have "unat (word_of_nat (length kd) :: 32 word) = length kd" using kd by (simp add: unat_of_nat)
  moreover have "(word_of_nat (length kd) :: 32 word) = 0 \<longleftrightarrow> unat (word_of_nat (length kd) :: 32 word) = 0"
    by (simp only: unat_eq_zero)
  ultimately have z: "(word_of_nat (length kd) :: 32 word) \<noteq> 0" using kd(1) by simp
  have uc: "(ucast (word_of_nat (length kd) :: 32 word) :: 16 word) = word_of_nat (length kd)"
  proof -
    have "length kd < 2 ^ 32" using kd(2) by simp
    then have "take_bit 32 (length kd) = length kd" by (rule take_bit_nat_eq_self)
    then show ?thesis by (simp add: unsigned_of_nat)
  qed
  show ?thesis
    using i v r m z uc pr
    by (simp add: parse_args.simps [of argv pp i buf s] arg_matches_def params_upd_def Let_def)
qed

lemma parse_args_input:
  assumes i: "unat i < length argv" "argv ! unat i = p @ [0]"
    and p: "0 \<notin> set p" "p \<noteq> []" "hd p \<noteq> 45" "length p < 255" "fs s p = Some data"
    and d: "data \<noteq> []" "length data < 65535"
    and pr: "params s pp = Some pr" "input_buffer pr = 0"
    and wf: "heap_wf s" "\<not> alloc_fails s (alloc_count s)"
  shows "parse_args argv pp i buf s =
     parse_args argv pp (i + 2) (next_addr s)
       (s\<lparr>blocks := (blocks s)(next_addr s \<mapsto> data), next_addr := Suc (next_addr s),
          alloc_count := Suc (alloc_count s),
          stdout_data := stdout_data s @ log_line False (ascii ''read_file: Successfully read file '' @ p @
                                                          ascii '' size: '' @ fmt_d (int (length data))),
          params := (params s)(pp \<mapsto> pr\<lparr>input_buffer := next_addr s, input_buffer_size := word_of_nat (length data)\<rparr>)\<rparr>)"
proof -
  have v: "is_path_valid (Some (p @ [0])) s = Some True"
    using is_path_valid_cstr [OF p(1-4), of s] p(5) by (simp add: domI)
  have r: "read_file_into_memory (Some (p @ [0])) True s =
     Some (word_of_nat (length data), Some (next_addr s),
           s\<lparr>blocks := (blocks s)(next_addr s \<mapsto> take (length data mod 2 ^ 32) data),
             next_addr := Suc (next_addr s), alloc_count := Suc (alloc_count s),
             stdout_data := stdout_data s @ log_line False (ascii ''read_file: Successfully read file '' @ p @
                                                          ascii '' size: '' @ fmt_d (int (length data mod 2 ^ 32)))\<rparr>)"
    using read_file_into_memory_run [of s "p @ [0]" data] p d wf by simp
  have m: "length data mod 2 ^ 32 = length data" using d by simp
  have "unat (word_of_nat (length data) :: 32 word) = length data" using d by (simp add: unat_of_nat)
  moreover have "(word_of_nat (length data) :: 32 word) = 0 \<longleftrightarrow> unat (word_of_nat (length data) :: 32 word) = 0"
    by (simp only: unat_eq_zero)
  ultimately have z: "(word_of_nat (length data) :: 32 word) \<noteq> 0" using d(1) by simp
  show ?thesis
    using i v r m z pr arg_matches_cstr [OF p(2,3)]
    by (simp add: parse_args.simps [of argv pp i buf s] params_upd_def Let_def)
qed

lemma parse_args_input_last:
  assumes pr: "params T a = Some pr" "input_buffer pr = 0"
    and p: "0 \<notin> set p" "p \<noteq> []" "hd p \<noteq> 45" "length p < 255" "fs T p = Some data"
    and d: "data \<noteq> []" "length data < 65535"
    and wf: "heap_wf T" "\<not> alloc_fails T (alloc_count T)"
  shows "parse_args [prog, opt, arg, p @ [0]] a 3 b T =
     Some (True, next_addr T, T\<lparr>blocks := (blocks T)(next_addr T \<mapsto> data), next_addr := Suc (next_addr T),
          alloc_count := Suc (alloc_count T),
          stdout_data := stdout_data T @ log_line False (ascii ''read_file: Successfully read file '' @ p @
                                                          ascii '' size: '' @ fmt_d (int (length data))),
          params := (params T)(a \<mapsto> pr\<lparr>input_buffer := next_addr T, input_buffer_size := word_of_nat (length data)\<rparr>)\<rparr>)"
proof -
  let ?T' = "T\<lparr>blocks := (blocks T)(next_addr T \<mapsto> data), next_addr := Suc (next_addr T),
          alloc_count := Suc (alloc_count T),
          stdout_data := stdout_data T @ log_line False (ascii ''read_file: Successfully read file '' @ p @
                                                          ascii '' size: '' @ fmt_d (int (length data))),
          params := (params T)(a \<mapsto> pr\<lparr>input_buffer := next_addr T, input_buffer_size := word_of_nat (length data)\<rparr>)\<rparr>"
  have "parse_args [prog, opt, arg, p @ [0]] a 3 b T = parse_args [prog, opt, arg, p @ [0]] a 5 (next_addr T) ?T'"
    using parse_args_input [of 3 "[prog, opt, arg, p @ [0]]" p T data a pr b] p d pr wf by simp
  also have "\<dots> = Some (True, next_addr T, ?T')" by (rule parse_args_end) simp
  finally show ?thesis .
qed

lemma parse_cli_and_load_start:
  assumes "heap_wf s" "\<not> alloc_fails s (alloc_count s)" "Suc 0 < length argv"
    "parse_args argv (next_addr s) 1 0 (s\<lparr>next_addr := Suc (next_addr s), alloc_count := Suc (alloc_count s),
       params := (params s)(next_addr s \<mapsto> params_zero)\<rparr>) = Some (True, b, T)"
    "params T (next_addr s) = Some pr" "params_key pr \<noteq> 0"
  shows "parse_cli_and_load argv s = Some (next_addr s, T)"
  using assms by (simp add: parse_cli_and_load_def alloc_addr_def heap_wf_def)

subsection \<open>\<open>main\<close> after a successful parse\<close>

lemma print_help_stdout: "\<exists>t. print_help m = m\<lparr>stdout_data := stdout_data m @ t\<rparr>"
  unfolding print_help_def fold_debug by (rule exI) (rule refl)

lemma print_help_same_stdout:
  "stdout_data m = stdout_data m' \<Longrightarrow> stdout_data (print_help m) = stdout_data (print_help m')"
  unfolding print_help_def fold_debug by simp

lemma print_cli_params_stdio:
  assumes "0 < pp" "params s pp = Some pr" "blocks s (params_key pr) = Some kb" "0 \<in> set kb"
    "input_buffer pr = 0" "output_buffer_path pr = 0"
  shows "print_cli_params pp s = Some (s\<lparr>stdout_data := stdout_data s @
      log_line False (ascii ''key: '' @ takeWhile (\<lambda>c. c \<noteq> 0) kb @ ascii '' (size: '' @
                      fmt_d (uint (params_key_size pr)) @ ascii '')'') @
      log_line False (ascii ''input_buf: stdin'') @ log_line False (ascii ''output_buf_path: stdout'')\<rparr>)"
  using assms by (simp add: print_cli_params_def load_cstr_def debug_def)

lemma print_cli_params_file:
  assumes "0 < pp" "params s pp = Some pr" "blocks s (params_key pr) = Some kb" "0 \<in> set kb"
    "0 < input_buffer pr" "blocks s (input_buffer pr) = Some d" "0 \<in> set d" "output_buffer_path pr = 0"
  shows "print_cli_params pp s = Some (s\<lparr>stdout_data := stdout_data s @
      log_line False (ascii ''key: '' @ takeWhile (\<lambda>c. c \<noteq> 0) kb @ ascii '' (size: '' @
                      fmt_d (uint (params_key_size pr)) @ ascii '')'') @
      log_line False (ascii ''input_buf: '' @ takeWhile (\<lambda>c. c \<noteq> 0) d @ ascii '' (size: '' @
                      fmt_d (sint (input_buffer_size pr)) @ ascii '')'') @
      log_line False (ascii ''output_buf_path: stdout'')\<rparr>)"
  using assms by (simp add: print_cli_params_def load_cstr_def debug_def)

lemma free_cli_params_key:
  assumes "0 < pp" "params s pp = Some pr" "0 < params_key pr" "blocks s (params_key pr) = Some kb"
    "unat (params_key_size pr) \<le> length kb" "input_buffer pr = 0" "output_buffer_path pr = 0"
  shows "free_cli_params pp s =
     Some (s\<lparr>blocks := (blocks s)(params_key pr := None),
             freed := freed s @ [replicate (unat (params_key_size pr)) 0 @ drop (unat (params_key_size pr)) kb],
             params := (params s)(pp := None)\<rparr>)"
  using assms by (simp add: free_cli_params_def memset_Some free_Some)

lemma main_run:
  assumes "parse_cli_and_load argv (main_banner s) = Some (pp, S)" "0 < pp" "params S pp = Some pr"
    "0 < params_key pr" "print_cli_params pp S = Some S1"
    "crypt_alloc_context True (params_key pr) (ucast (params_key_size pr)) S1 = Some (CRYPT_ERROR_OK, Some c, S2)"
    "(if input_buffer pr \<noteq> 0 then mode_input_file c pp S2 else mode_input_stdin c pp S2) = Some (0, S3)"
    "crypt_free_context c (debug False (ascii ''Cleanup...'') S3) = Some S4" "free_cli_params pp S4 = Some S5"
  shows "main argv s = Some (0, S5)"
  using assms by (simp add: main_def)

text \<open>The context \<open>crypt_alloc_context\<close> creates for a parameter block with a key of
  \<open>unat ksz\<close> bytes, and its release after the I/O mode.\<close>

lemma main_context_run:
  assumes wf: "prov_wf S" and ok: "\<forall>n. \<not> alloc_fails S n"
    and key: "blocks S kp = Some kb" "unat ksz \<le> length kb" "unat ksz < 255"
  defines "cx \<equiv> \<lparr>version = CRYPT_VERSION, version_string = Some CRYPT_VERSION_STRING,
      key = Suc (next_addr S), key_size = ucast ksz, key_state = 0\<rparr>"
  defines "S2 \<equiv> S\<lparr>blocks := (blocks S)(Suc (next_addr S) \<mapsto> take (unat ksz) kb),
       next_addr := Suc (Suc (next_addr S)), alloc_count := Suc (Suc (alloc_count S)),
       ctxs := (ctxs S)(next_addr S \<mapsto> cx)\<rparr>"
  shows "crypt_alloc_context True kp ksz S = Some (CRYPT_ERROR_OK, Some (next_addr S), S2)"
    and "prov_wf S2" "ctx_inv S2 (next_addr S)" "ctxs S2 (next_addr S) = Some cx"
      "blocks S2 (key cx) = Some (take (unat ksz) kb)" "unat (key_size cx) = unat ksz"
      "kp < next_addr S" "\<forall>n. \<not> alloc_fails S2 n"
proof -
  have kl: "ksz < 255" using key(3) by (simp add: word_less_nat_alt)
  have ok2: "\<not> alloc_fails S (alloc_count S)" "\<not> alloc_fails S (Suc (alloc_count S))" using ok by simp_all
  show "crypt_alloc_context True kp ksz S = Some (CRYPT_ERROR_OK, Some (next_addr S), S2)"
    using crypt_alloc_context_run [OF wf key(1,2) kl ok2] by (simp add: S2_def cx_def)
  show k16: "unat (key_size cx) = unat ksz"
    using key(3) by (simp add: cx_def unsigned_ucast_eq take_bit_nat_eq_self_iff)
  show "prov_wf S2" using wf by (auto simp: S2_def prov_wf_def heap_wf_def)
  show "ctx_inv S2 (next_addr S)"
    using k16 key(2,3) by (simp add: ctx_inv_def S2_def cx_def word_less_nat_alt)
  show "ctxs S2 (next_addr S) = Some cx" "blocks S2 (key cx) = Some (take (unat ksz) kb)"
    by (simp_all add: S2_def cx_def)
  show "kp < next_addr S" using wf key(1) by (auto simp: prov_wf_def dest: heap_wf_live_below)
  show "\<forall>n. \<not> alloc_fails S2 n" using ok by (simp add: S2_def)
qed

lemma main_stdin_mode_run:
  assumes parse: "parse_cli_and_load argv (main_banner s) = Some (pp, S)" and pp: "0 < pp" "params S pp = Some pr"
    and wf: "prov_wf S" and ok: "\<forall>n. \<not> alloc_fails S n"
    and key: "blocks S (params_key pr) = Some kb" "0 < params_key pr" "unat (params_key_size pr) \<le> length kb"
      "0 \<in> set kb"
    and ksz: "ksz = (ucast (params_key_size pr) :: byte)" "unat ksz = unat (params_key_size pr)" "unat ksz < 255"
    and io: "input_buffer pr = 0" "output_buffer_path pr = 0"
    and run: "crypt_step (ucast ksz) (take (unat ksz) kb) 0 (takeWhile (\<lambda>x. x \<noteq> 0xFF) (stdin_rest S)) = (kb', j, ys)"
  shows "\<exists>s'. main argv s = Some (0, s') \<and> stdout_data s' = stdout_data S @
      log_line False (ascii ''key: '' @ takeWhile (\<lambda>c. c \<noteq> 0) kb @ ascii '' (size: '' @
                      fmt_d (uint (params_key_size pr)) @ ascii '')'') @
      log_line False (ascii ''input_buf: stdin'') @ log_line False (ascii ''output_buf_path: stdout'') @
      take (16 * (length (takeWhile (\<lambda>x. x \<noteq> 0xFF) (stdin_rest S)) div 16)) ys @ eof_notice @
      drop (16 * (length (takeWhile (\<lambda>x. x \<noteq> 0xFF) (stdin_rest S)) div 16)) ys @
      log_line False (ascii ''mode_input_stdin: total read: '' @
        fmt_d (sint (word_of_nat (length (takeWhile (\<lambda>x. x \<noteq> 0xFF) (stdin_rest S))) :: 32 word))) @
      log_line False (ascii ''Cleanup...'')"
proof -
  let ?d = "takeWhile (\<lambda>x. x \<noteq> 0xFF) (stdin_rest S)"
  define S1 where "S1 = S\<lparr>stdout_data := stdout_data S @
      log_line False (ascii ''key: '' @ takeWhile (\<lambda>c. c \<noteq> 0) kb @ ascii '' (size: '' @
                      fmt_d (uint (params_key_size pr)) @ ascii '')'') @
      log_line False (ascii ''input_buf: stdin'') @ log_line False (ascii ''output_buf_path: stdout'')\<rparr>"
  have pc: "print_cli_params pp S = Some S1"
    unfolding S1_def by (rule print_cli_params_stdio [OF pp key(1,4) io])
  have wf1: "prov_wf S1" and ok1: "\<forall>n. \<not> alloc_fails S1 n" and key1: "blocks S1 (params_key pr) = Some kb"
    using wf ok key(1) by (simp_all add: S1_def prov_wf_def heap_wf_def)
  have uk: "unat ksz \<le> length kb" using ksz(2) key(3) by simp
  note ctx = main_context_run [OF wf1 ok1 key1 uk ksz(3)]
  define cx where "cx = \<lparr>version = CRYPT_VERSION, version_string = Some CRYPT_VERSION_STRING,
      key = Suc (next_addr S1), key_size = ucast ksz, key_state = 0\<rparr>"
  define S2 where "S2 = S1\<lparr>blocks := (blocks S1)(Suc (next_addr S1) \<mapsto> take (unat ksz) kb),
       next_addr := Suc (Suc (next_addr S1)), alloc_count := Suc (Suc (alloc_count S1)),
       ctxs := (ctxs S1)(next_addr S1 \<mapsto> cx)\<rparr>"
  have p2: "params S2 pp = Some pr" using pp(2) by (simp add: S2_def S1_def)
  have in2: "stdin_rest S2 = stdin_rest S" by (simp add: S2_def S1_def)
  have run2: "crypt_step (key_size cx) (take (unat ksz) kb) (unat (key_state cx)) (takeWhile (\<lambda>x. x \<noteq> 0xFF) (stdin_rest S2)) =
      (kb', j, ys)" using run in2 by (simp add: cx_def)
  define S3 where "S3 = S2\<lparr>blocks := (blocks S2)(key cx \<mapsto> kb'), next_addr := Suc (next_addr S2),
               ctxs := (ctxs S2)(next_addr S1 \<mapsto> cx\<lparr>key_state := word_of_nat j\<rparr>),
               stdin_rest := drop (Suc (length (takeWhile (\<lambda>x. x \<noteq> 0xFF) (stdin_rest S2)))) (stdin_rest S2),
               stdout_data := stdout_data S2 @ take (16 * (length (takeWhile (\<lambda>x. x \<noteq> 0xFF) (stdin_rest S2)) div 16)) ys @
                 eof_notice @ drop (16 * (length (takeWhile (\<lambda>x. x \<noteq> 0xFF) (stdin_rest S2)) div 16)) ys @
                 log_line False (ascii ''mode_input_stdin: total read: '' @
                   fmt_d (sint (word_of_nat (length (takeWhile (\<lambda>x. x \<noteq> 0xFF) (stdin_rest S2))) :: 32 word)))\<rparr>"
  have mode: "mode_input_stdin (next_addr S1) pp S2 = Some (0, S3)"
    unfolding S3_def
    using mode_input_stdin_spec [OF ctx(2,3,4,5) [folded cx_def, folded S2_def] pp(1) p2 io(2) run2] by (simp add: S2_def)
  have lk: "length kb' = unat ksz" using crypt_step_length [OF run] uk by simp
  define S4 where "S4 = (debug False (ascii ''Cleanup...'') S3)\<lparr>blocks := (blocks S3)(key cx := None),
             freed := freed S3 @ [replicate (unat (key_size cx)) 0 @ drop (unat (key_size cx)) kb'],
             ctxs := (ctxs S3)(next_addr S1 := None)\<rparr>"
  have fr: "crypt_free_context (next_addr S1) (debug False (ascii ''Cleanup...'') S3) = Some S4"
    unfolding S4_def
    using crypt_free_context_run [of "debug False (ascii ''Cleanup...'') S3" "next_addr S1" "cx\<lparr>key_state := word_of_nat j\<rparr>" kb']
      ctx(6) lk wf1 by (simp add: S3_def S2_def cx_def prov_wf_def heap_wf_def debug_def)
  have p4: "params S4 pp = Some pr" "blocks S4 (params_key pr) = Some kb"
    using pp(2) key(1) ctx(7) by (simp_all add: S4_def S3_def S2_def S1_def cx_def debug_def)
  obtain S5 where fc: "free_cli_params pp S4 = Some S5" and out5: "stdout_data S5 = stdout_data S4"
    using free_cli_params_key [OF pp(1) p4(1) key(2) p4(2) key(3) io] by simp
  have "main argv s = Some (0, S5)"
    using main_run [OF parse pp key(2) pc _ _ fr fc] ctx(1) [folded cx_def, folded S2_def] ksz(1) mode io(1) by simp
  moreover have "stdout_data S5 = stdout_data S @
      log_line False (ascii ''key: '' @ takeWhile (\<lambda>c. c \<noteq> 0) kb @ ascii '' (size: '' @
                      fmt_d (uint (params_key_size pr)) @ ascii '')'') @
      log_line False (ascii ''input_buf: stdin'') @ log_line False (ascii ''output_buf_path: stdout'') @
      take (16 * (length ?d div 16)) ys @ eof_notice @ drop (16 * (length ?d div 16)) ys @
      log_line False (ascii ''mode_input_stdin: total read: '' @ fmt_d (sint (word_of_nat (length ?d) :: 32 word))) @
      log_line False (ascii ''Cleanup...'')"
    using out5 in2 by (simp add: S4_def S3_def S2_def S1_def)
  ultimately show ?thesis by blast
qed

lemma main_file_mode_run:
  assumes parse: "parse_cli_and_load argv (main_banner s) = Some (pp, S)" and pp: "0 < pp" "params S pp = Some pr"
    and wf: "prov_wf S" and ok: "\<forall>n. \<not> alloc_fails S n"
    and key: "blocks S (params_key pr) = Some kb" "0 < params_key pr" "unat (params_key_size pr) \<le> length kb"
      "0 \<in> set kb"
    and ksz: "ksz = (ucast (params_key_size pr) :: byte)" "0 < unat ksz" "unat ksz < 255"
    and inp: "blocks S (input_buffer pr) = Some data" "0 < input_buffer pr" "input_buffer pr \<noteq> params_key pr"
      "unat (input_buffer_size pr) = length data" "data \<noteq> []" "length data \<le> 65535" "0 \<in> set data"
    and o: "output_buffer_path pr = 0"
    and run: "crypt_bytes (take (unat ksz) kb) 0 data = (kb', j, ys)"
  shows "\<exists>s'. main argv s = Some (0, s') \<and> stdout_data s' = stdout_data S @
      log_line False (ascii ''key: '' @ takeWhile (\<lambda>c. c \<noteq> 0) kb @ ascii '' (size: '' @
                      fmt_d (uint (params_key_size pr)) @ ascii '')'') @
      log_line False (ascii ''input_buf: '' @ takeWhile (\<lambda>c. c \<noteq> 0) data @ ascii '' (size: '' @
                      fmt_d (sint (input_buffer_size pr)) @ ascii '')'') @
      log_line False (ascii ''output_buf_path: stdout'') @ ys @ log_line False (ascii ''Cleanup...'')"
proof -
  define S1 where "S1 = S\<lparr>stdout_data := stdout_data S @
      log_line False (ascii ''key: '' @ takeWhile (\<lambda>c. c \<noteq> 0) kb @ ascii '' (size: '' @
                      fmt_d (uint (params_key_size pr)) @ ascii '')'') @
      log_line False (ascii ''input_buf: '' @ takeWhile (\<lambda>c. c \<noteq> 0) data @ ascii '' (size: '' @
                      fmt_d (sint (input_buffer_size pr)) @ ascii '')'') @
      log_line False (ascii ''output_buf_path: stdout'')\<rparr>"
  have pc: "print_cli_params pp S = Some S1"
    unfolding S1_def by (rule print_cli_params_file [OF pp key(1,4) inp(2,1,7) o])
  have wf1: "prov_wf S1" and ok1: "\<forall>n. \<not> alloc_fails S1 n" and key1: "blocks S1 (params_key pr) = Some kb"
    using wf ok key(1) by (simp_all add: S1_def prov_wf_def heap_wf_def)
  have "unat ksz \<le> unat (params_key_size pr)"
    using ksz(1) by (simp add: unsigned_ucast_eq take_bit_nat_less_eq_self)
  then have uk: "unat ksz \<le> length kb" using key(3) by simp
  note ctx = main_context_run [OF wf1 ok1 key1 uk ksz(3)]
  define cx where "cx = \<lparr>version = CRYPT_VERSION, version_string = Some CRYPT_VERSION_STRING,
      key = Suc (next_addr S1), key_size = ucast ksz, key_state = 0\<rparr>"
  define S2 where "S2 = S1\<lparr>blocks := (blocks S1)(Suc (next_addr S1) \<mapsto> take (unat ksz) kb),
       next_addr := Suc (Suc (next_addr S1)), alloc_count := Suc (Suc (alloc_count S1)),
       ctxs := (ctxs S1)(next_addr S1 \<mapsto> cx)\<rparr>"
  note ctx' = ctx [folded cx_def, folded S2_def]
  have nz: "key_size cx \<noteq> 0" using ctx'(6) ksz(2) by (auto simp: cx_def)
  have hw: "heap_wf S" using wf by (simp add: prov_wf_def)
  have below: "input_buffer pr < next_addr S" using heap_wf_live_below [OF hw inp(1)] by simp
  have p2: "params S2 pp = Some pr" using pp(2) by (simp add: S2_def S1_def)
  have d2: "blocks S2 (input_buffer pr) = Some data" "input_buffer pr \<noteq> key cx"
    using inp(1) below by (simp_all add: S2_def S1_def cx_def)
  have ok2: "\<not> alloc_fails S2 (alloc_count S2)" using ctx'(8) by simp
  have run2: "crypt_bytes (take (unat ksz) kb) (unat (key_state cx)) data = (kb', j, ys)" using run by (simp add: cx_def)
  define S3 where "S3 = S2\<lparr>blocks := (blocks S2)(key cx \<mapsto> kb'), next_addr := Suc (next_addr S2),
               alloc_count := Suc (alloc_count S2), freed := freed S2 @ [ys],
               ctxs := (ctxs S2)(next_addr S1 \<mapsto> cx\<lparr>key_state := word_of_nat j\<rparr>),
               stdout_data := stdout_data S2 @ ys\<rparr>"
  have mode: "mode_input_file (next_addr S1) pp S2 = Some (0, S3)"
    unfolding S3_def by (rule mode_input_file_run [OF ctx'(2,3,4) nz ctx'(5) pp(1) p2 o d2 inp(4,5,6) ok2 run2])
  have lk: "length kb' = unat ksz" using crypt_bytes_length [OF run] uk by simp
  define S4 where "S4 = (debug False (ascii ''Cleanup...'') S3)\<lparr>blocks := (blocks S3)(key cx := None),
             freed := freed S3 @ [replicate (unat (key_size cx)) 0 @ drop (unat (key_size cx)) kb'],
             ctxs := (ctxs S3)(next_addr S1 := None)\<rparr>"
  have fr: "crypt_free_context (next_addr S1) (debug False (ascii ''Cleanup...'') S3) = Some S4"
    unfolding S4_def
    using crypt_free_context_run [of "debug False (ascii ''Cleanup...'') S3" "next_addr S1" "cx\<lparr>key_state := word_of_nat j\<rparr>" kb']
      ctx'(6) lk wf1 by (simp add: S3_def S2_def cx_def prov_wf_def heap_wf_def debug_def)
  have p4: "params S4 pp = Some pr" "blocks S4 (params_key pr) = Some kb" "blocks S4 (input_buffer pr) = Some data"
    using pp(2) key(1) inp(1) ctx(7) below by (simp_all add: S4_def S3_def S2_def S1_def cx_def debug_def)
  obtain S5 where fc: "free_cli_params pp S4 = Some S5" and out5: "stdout_data S5 = stdout_data S4"
    using free_cli_params_run [OF pp(1) p4(1) key(2) p4(2) key(3) inp(2) p4(3) _ inp(3) o] inp(4) by simp
  have "main argv s = Some (0, S5)"
    using main_run [OF parse pp key(2) pc _ _ fr fc] ctx'(1) ksz(1) mode inp(2) by simp
  moreover have "stdout_data S5 = stdout_data S1 @ ys @ log_line False (ascii ''Cleanup...'')"
    using out5 by (simp add: S4_def S3_def S2_def)
  ultimately show ?thesis by (simp add: S1_def)
qed

subsection \<open>The argument loop with 257 arguments\<close>

lemma parse_args_o_dash_diverges:
  "\<forall>a pp b c d y. a = prog # concat (replicate 128 [[45, 111, 0], [45, 0]]) \<and> odd (unat b) \<longrightarrow>
     parse_args a pp b c d \<noteq> Some y"
proof -
  let ?argv = "prog # concat (replicate 128 [[45, 111, (0::byte)], [45, 0]])"
  have nth: "?argv ! j = (if odd j then [45, 111, 0] else [45, 0])" if "0 < j" "j < 257" for j
  proof -
    have "?argv ! j = concat (replicate 128 [[45, 111, (0::byte)], [45, 0]]) ! (j - 1)"
      using that by (simp add: nth_Cons')
    also have "\<dots> = (if even (j - 1) then [45, 111, 0] else [45, 0])"
      using that by (intro nth_concat_replicate_pair) simp
    finally show ?thesis using that by auto
  qed
  have len: "length ?argv = 257" by (simp add: length_concat_replicate_pair)
  have sl: "strnlen (Some [45, 0]) MAX_FILE_PATH = Some 1"
    using strnlen_cstr_end [of "[45]" MAX_FILE_PATH] by (simp add: MAX_FILE_PATH_def)
  show ?thesis
    apply (rule parse_args.fixp_induct [where P = "\<lambda>f. \<forall>a pp b c d y. a = ?argv \<and> odd (unat b) \<longrightarrow> f a pp b c d \<noteq> Some y"])
    subgoal
    proof -
      have eq: "(\<lambda>g. \<forall>a pp b c d y. a = ?argv \<and> odd (unat b) \<longrightarrow> curry (curry (curry (curry g))) a pp b c d \<noteq> Some y) =
            (\<lambda>g. \<forall>x y. g x = Some y \<longrightarrow> \<not> (fst (fst (fst (fst x))) = ?argv \<and> odd (unat (snd (fst (fst x))))))"
        by (fastforce simp: fun_eq_iff split_paired_All)
      show ?thesis by (subst eq) (rule option_admissible)
    qed
    subgoal by simp
    subgoal for f
      apply (intro allI impI)
      apply (elim conjE)
      subgoal premises prems for a pp b c d y
      proof -
        have b: "0 < unat b" "unat b < 256" using prems(3) by (auto intro: odd_pos)
        have e1: "?argv ! unat b = [45, 111, 0]" using nth [of "unat b"] b prems(3) by simp
        have e2: "?argv ! Suc (unat b) = [45, 0]" using nth [of "Suc (unat b)"] b prems(3) by simp
        have IH: "f ?argv pp (b + 2) c d \<noteq> Some y" using prems(1) odd_unat_plus_2 [OF prems(3)] by blast
        have nb: "\<not> 256 \<le> unat b" using unat_byte_lt [of b] by linarith
        have nw: "\<not> (255 :: 32 word) \<le> 1" by (simp add: word_le_nat_alt)
        show ?thesis
          using prems(2) b e1 e2 sl IH len nb nw by (simp add: arg_matches_def MAX_FILE_PATH_def argv_at_def)
      qed
      done
    done
qed

subsection \<open>The parameter block through the argument loop\<close>

lemma params_fail_null: "params_fail pp s = Some (q, s') \<Longrightarrow> q = 0"
  by (auto simp: params_fail_def bind_eq_Some_conv split: if_splits option.splits)

lemma parse_args_wf:
  "\<forall>argv pp i buf s r. heap_wf s \<and> params_wf s pp \<and> parse_args argv pp i buf s = Some r \<longrightarrow>
     heap_wf (snd (snd r)) \<and> params_wf (snd (snd r)) pp"
  apply (rule parse_args.fixp_induct [where P = "\<lambda>f. \<forall>argv pp i buf s r. heap_wf s \<and> params_wf s pp \<and> f argv pp i buf s = Some r \<longrightarrow>
     heap_wf (snd (snd r)) \<and> params_wf (snd (snd r)) pp"])
  subgoal
  proof -
    have eq: "(\<lambda>g. \<forall>argv pp i buf s r. heap_wf s \<and> params_wf s pp \<and> curry (curry (curry (curry g))) argv pp i buf s = Some r \<longrightarrow>
       heap_wf (snd (snd r)) \<and> params_wf (snd (snd r)) pp) =
       (\<lambda>g. \<forall>x r. g x = Some r \<longrightarrow> (heap_wf (snd x) \<and> params_wf (snd x) (snd (fst (fst (fst x)))) \<longrightarrow>
          heap_wf (snd (snd r)) \<and> params_wf (snd (snd r)) (snd (fst (fst (fst x))))))"
      by (fastforce simp: fun_eq_iff)
    show ?thesis by (subst eq) (rule option_admissible)
  qed
  subgoal by simp
  subgoal for f
    apply (intro allI impI)
    apply (elim conjE)
    subgoal premises prems for argv pp i buf s r
    proof -
      have IH: "\<And>j b' s' r'. heap_wf s' \<Longrightarrow> params_wf s' pp \<Longrightarrow> f argv pp j b' s' = Some r' \<Longrightarrow>
          heap_wf (snd (snd r')) \<and> params_wf (snd (snd r')) pp" using prems(1) by blast
      obtain pr where pr: "params s pp = Some pr" using prems(3) by (auto simp: params_wf_def split: option.splits)
      note body = prems(4) [unfolded Let_def]
      show ?thesis
      proof (cases "unat i < length argv")
        case False then show ?thesis using body prems(2,3) by auto
      next
        case len: True
        let ?a = "argv ! unat i"
        consider (h) "arg_matches 104 ?a" | (k) "\<not> arg_matches 104 ?a" "arg_matches 107 ?a"
          | (kf) "\<not> arg_matches 104 ?a" "\<not> arg_matches 107 ?a" "arg_matches 102 ?a"
          | (o) "\<not> arg_matches 104 ?a" "\<not> arg_matches 107 ?a" "\<not> arg_matches 102 ?a" "arg_matches 111 ?a"
          | (inp) "\<not> arg_matches 104 ?a" "\<not> arg_matches 107 ?a" "\<not> arg_matches 102 ?a" "\<not> arg_matches 111 ?a"
          by blast
        then show ?thesis
        proof cases
          case h then show ?thesis using body len prems(2,3) by auto
        next
          case k
          show ?thesis
          proof (cases "params_key pr = 0")
            case False then show ?thesis using body len k pr prems(2,3) by auto
          next
            case kz: True
            have step: "heap_wf (snd (snd r)) \<and> params_wf (snd (snd r)) pp"
              if "malloc (unat bs) s = (k', s1)" "memcpy_from k' src (unat bs) s1 = Some s2"
                "params_upd pp (\<lambda>p. p\<lparr>params_key := k', params_key_size := ucast bs\<rparr>) s2 = Some s3"
                "f argv pp (i + 2) buf s3 = Some r" for bs :: "32 word" and k' s1 s2 s3 src
              using key_set_wf [OF prems(2,3) pr kz that(1-3)] IH [OF _ _ that(4)] by blast
            show ?thesis using body len k pr kz prems(2,3)
              by (auto simp: bind_eq_Some_conv split: if_splits prod.splits intro: step [THEN conjunct1] step [THEN conjunct2])
          qed
        next
          case kf
          show ?thesis
          proof (cases "params_key pr = 0")
            case False then show ?thesis using body len kf pr prems(2,3) by auto
          next
            case kz: True
            have step: "heap_wf (snd (snd r)) \<and> params_wf (snd (snd r)) pp"
              if "read_file_into_memory path True s = Some (bs, out, s1)" "bs \<noteq> 0"
                "params_upd pp (\<lambda>p. p\<lparr>params_key := (case out of None \<Rightarrow> buf | Some b \<Rightarrow> b),
                                  params_key_size := ucast bs\<rparr>) s1 = Some s2"
                "f argv pp (i + 2) (case out of None \<Rightarrow> buf | Some b \<Rightarrow> b) s2 = Some r" for path bs out s1 s2
              using file_set_wf(1) [OF prems(2,3) pr that(1,2) kz that(3)] IH [OF _ _ that(4)] by blast
            have fail: "heap_wf s1 \<and> params_wf s1 pp" if "read_file_into_memory path True s = Some (bs, out, s1)"
              for path bs out s1
              using read_file_wf [OF that prems(2,3)] .
            show ?thesis using body len kf pr kz prems(2,3)
              by (auto simp: bind_eq_Some_conv split: if_splits prod.splits intro: step [THEN conjunct1] step [THEN conjunct2] dest: fail)
          qed
        next
          case o
          have step: "heap_wf (snd (snd r)) \<and> params_wf (snd (snd r)) pp"
            if "malloc (unat pl + 4) s = (op, s1)" "memcpy_from op src (unat pl) s1 = Some s2"
              "params_upd pp (output_buffer_path_update (\<lambda>_. op)) s2 = Some s3"
              "f argv pp (i + 2) buf s3 = Some r" for pl op s1 s2 s3 src
            using out_set_wf [OF prems(2,3) pr that(1-3)] IH [OF _ _ that(4)] by blast
          show ?thesis using body len o pr prems(2,3)
            by (auto simp: bind_eq_Some_conv split: if_splits prod.splits intro: step [THEN conjunct1] step [THEN conjunct2] IH [THEN conjunct1] IH [THEN conjunct2])
        next
          case inp
          show ?thesis
          proof (cases "input_buffer pr = 0")
            case False then show ?thesis using body len inp pr prems(2,3) by auto
          next
            case iz: True
            have step: "heap_wf (snd (snd r)) \<and> params_wf (snd (snd r)) pp"
              if "read_file_into_memory path True s = Some (bs, out, s1)" "bs \<noteq> 0"
                "params_upd pp (\<lambda>p. p\<lparr>input_buffer := (case out of None \<Rightarrow> buf | Some b \<Rightarrow> b),
                                  input_buffer_size := bs\<rparr>) s1 = Some s2"
                "f argv pp (i + 2) (case out of None \<Rightarrow> buf | Some b \<Rightarrow> b) s2 = Some r" for path bs out s1 s2
              using file_set_wf(2) [OF prems(2,3) pr that(1,2) iz that(3)] IH [OF _ _ that(4)] by blast
            have fail: "heap_wf s1 \<and> params_wf s1 pp" if "read_file_into_memory path True s = Some (bs, out, s1)"
              for path bs out s1
              using read_file_wf [OF that prems(2,3)] .
            show ?thesis using body len inp pr prems(2,3)
              by (auto simp: bind_eq_Some_conv split: if_splits prod.splits intro: step [THEN conjunct1] step [THEN conjunct2] dest: fail)
          qed
        qed
      qed
    qed
    done
  done

subsection \<open>Properties of the command line\<close>

text \<open>C24. End to end, with the key in a file and the data on standard input: crypt -f KEYFILE, for a key file of 1 to 254 bytes that holds a 0 byte, returns 0 and writes to standard output the list transform crypt_bytes of the input up to the first 0xFF, under the whole key file from cursor 0. The data is interleaved with the log on the same stream: the banner, the file-read notice, the parameters (the key itself, up to its first 0 byte), the end-of-input notice before the transform of the last, short chunk, the count and the cleanup notice.\<close>

theorem main_key_file_encrypts_stdin:
  assumes wf: "prov_wf s" and ok: "\<forall>n. \<not> alloc_fails s n"
    and kp: "0 \<notin> set kp" "kp \<noteq> []" "hd kp \<noteq> 45" "length kp < 255" "fs s kp = Some kd"
    and kd: "0 \<in> set kd" "length kd < 255"
    and run: "crypt_bytes kd 0 (takeWhile (\<lambda>x. x \<noteq> 0xFF) (stdin_rest s)) = (kb', j, ys)"
  shows "\<exists>s'. main [prog, [45, 102, 0], kp @ [0]] s = Some (0, s') \<and>
     stdout_data s' = stdout_data (main_banner s) @
       log_line False (ascii ''read_file: Successfully read file '' @ kp @ ascii '' size: '' @ fmt_d (int (length kd))) @
       log_line False (ascii ''key: '' @ takeWhile (\<lambda>c. c \<noteq> 0) kd @ ascii '' (size: '' @
                       fmt_d (int (length kd)) @ ascii '')'') @
       log_line False (ascii ''input_buf: stdin'') @ log_line False (ascii ''output_buf_path: stdout'') @
       take (16 * (length (takeWhile (\<lambda>x. x \<noteq> 0xFF) (stdin_rest s)) div 16)) ys @ eof_notice @
       drop (16 * (length (takeWhile (\<lambda>x. x \<noteq> 0xFF) (stdin_rest s)) div 16)) ys @
       log_line False (ascii ''mode_input_stdin: total read: '' @
         fmt_d (sint (word_of_nat (length (takeWhile (\<lambda>x. x \<noteq> 0xFF) (stdin_rest s))) :: 32 word))) @
       log_line False (ascii ''Cleanup...'')"
proof -
  let ?argv = "[prog, [45, 102, 0], kp @ [0]]"
  let ?b = "main_banner s"
  let ?a = "next_addr s"
  have hw: "heap_wf ?b" using wf by (simp add: prov_wf_def heap_wf_def)
  have kne: "kd \<noteq> []" using kd(1) by auto
  let ?t0 = "?b\<lparr>next_addr := Suc (next_addr ?b), alloc_count := Suc (alloc_count ?b),
                 params := (params ?b)(next_addr ?b \<mapsto> params_zero)\<rparr>"
  define prk where "prk = params_zero\<lparr>params_key := Suc ?a, params_key_size := word_of_nat (length kd)\<rparr>"
  define T where "T = ?t0\<lparr>blocks := (blocks ?t0)(next_addr ?t0 \<mapsto> kd), next_addr := Suc (next_addr ?t0),
       alloc_count := Suc (alloc_count ?t0),
       stdout_data := stdout_data ?t0 @ log_line False (ascii ''read_file: Successfully read file '' @ kp @
                                                         ascii '' size: '' @ fmt_d (int (length kd))),
       params := (params ?t0)(?a \<mapsto> prk)\<rparr>"
  have hw0: "heap_wf ?t0" using hw by (auto simp: heap_wf_def)
  have st1: "parse_args ?argv ?a 1 0 ?t0 = parse_args ?argv ?a 3 (Suc ?a) T"
    using parse_args_f [of 1 ?argv kp ?t0 kd ?a params_zero 0] kp kne kd(2) ok hw0
    by (simp add: params_zero_def T_def prk_def)
  have st2: "parse_args ?argv ?a 3 (Suc ?a) T = Some (True, Suc ?a, T)" by (rule parse_args_end) simp
  have parse: "parse_cli_and_load ?argv ?b = Some (?a, T)"
    using parse_cli_and_load_start [of ?b ?argv "Suc ?a" T prk] hw ok st1 st2
    by (simp add: T_def prk_def)
  have a0: "0 < ?a" using wf by (simp add: prov_wf_def heap_wf_def)
  have uk16: "unat (word_of_nat (length kd) :: 16 word) = length kd" using kd(2) by (simp add: unat_of_nat)
  have uk8: "unat (ucast (word_of_nat (length kd) :: 16 word) :: byte) = length kd"
    using kd(2) by (simp add: unsigned_ucast_eq unat_of_nat take_bit_nat_eq_self_iff)
  have ui: "uint (word_of_nat (length kd) :: 16 word) = int (length kd)"
    using uk16 by (metis uint_nat)
  have wfT: "prov_wf T" using wf by (auto simp: T_def prov_wf_def heap_wf_def)
  have pT: "params T ?a = Some prk" by (simp add: T_def)
  have okT: "\<forall>n. \<not> alloc_fails T n" using ok by (simp add: T_def)
  have key: "blocks T (params_key prk) = Some kd" "0 < params_key prk" "unat (params_key_size prk) \<le> length kd"
    using uk16 by (simp_all add: T_def prk_def params_zero_def)
  have ksz: "unat (ucast (params_key_size prk) :: byte) = unat (params_key_size prk)"
    "unat (ucast (params_key_size prk) :: byte) < 255"
    using uk8 uk16 kd(2) by (simp_all add: prk_def params_zero_def)
  have io: "input_buffer prk = 0" "output_buffer_path prk = 0" by (simp_all add: prk_def params_zero_def)
  have nz: "(ucast (ucast (params_key_size prk) :: byte) :: 16 word) \<noteq> 0"
    using ucast_byte_nz uk8 kne by (simp add: prk_def params_zero_def)
  have runT: "crypt_step (ucast (ucast (params_key_size prk) :: byte)) (take (unat (ucast (params_key_size prk) :: byte)) kd) 0
      (takeWhile (\<lambda>x. x \<noteq> 0xFF) (stdin_rest T)) = (kb', j, ys)"
    using run nz uk8 by (simp add: crypt_step_def prk_def params_zero_def T_def)
  obtain s' where m: "main ?argv s = Some (0, s')" and out: "stdout_data s' = stdout_data T @
      log_line False (ascii ''key: '' @ takeWhile (\<lambda>c. c \<noteq> 0) kd @ ascii '' (size: '' @
                      fmt_d (uint (params_key_size prk)) @ ascii '')'') @
      log_line False (ascii ''input_buf: stdin'') @ log_line False (ascii ''output_buf_path: stdout'') @
      take (16 * (length (takeWhile (\<lambda>x. x \<noteq> 0xFF) (stdin_rest T)) div 16)) ys @ eof_notice @
      drop (16 * (length (takeWhile (\<lambda>x. x \<noteq> 0xFF) (stdin_rest T)) div 16)) ys @
      log_line False (ascii ''mode_input_stdin: total read: '' @
        fmt_d (sint (word_of_nat (length (takeWhile (\<lambda>x. x \<noteq> 0xFF) (stdin_rest T))) :: 32 word))) @
      log_line False (ascii ''Cleanup...'')"
    using main_stdin_mode_run [OF parse a0 pT wfT okT key kd(1) refl ksz io runT] by blast
  show ?thesis
    using m out ui by (intro exI [of _ s']) (simp add: T_def prk_def params_zero_def)
qed

text \<open>C25. crypt -f KEYFILE FILE uses only the first (length mod 256) bytes of the key file: the key size is a uint16_t in the parameters but a uint8_t parameter of crypt_alloc_context, so a key file of 256 + n bytes acts as its first n bytes. Both files must hold a 0 byte, for print_cli_params prints them with %s; the data written to standard output is the transform of the input file under the truncated key, between the log lines of the run.\<close>

theorem main_key_file_truncated:
  assumes wf: "prov_wf s" and ok: "\<forall>n. \<not> alloc_fails s n"
    and kp: "0 \<notin> set kp" "kp \<noteq> []" "hd kp \<noteq> 45" "length kp < 255" "fs s kp = Some kd"
    and kd: "length kd < 65535" "0 < length kd mod 256" "length kd mod 256 < 255" "0 \<in> set kd"
    and p: "0 \<notin> set p" "p \<noteq> []" "hd p \<noteq> 45" "length p < 255" "fs s p = Some data"
    and d: "length data < 65535" "0 \<in> set data"
    and run: "crypt_bytes (take (length kd mod 256) kd) 0 data = (kb', j, ys)"
  shows "\<exists>s'. main [prog, [45, 102, 0], kp @ [0], p @ [0]] s = Some (0, s') \<and>
     stdout_data s' = stdout_data (main_banner s) @
       log_line False (ascii ''read_file: Successfully read file '' @ kp @ ascii '' size: '' @ fmt_d (int (length kd))) @
       log_line False (ascii ''read_file: Successfully read file '' @ p @ ascii '' size: '' @ fmt_d (int (length data))) @
       log_line False (ascii ''key: '' @ takeWhile (\<lambda>c. c \<noteq> 0) kd @ ascii '' (size: '' @
                       fmt_d (int (length kd)) @ ascii '')'') @
       log_line False (ascii ''input_buf: '' @ takeWhile (\<lambda>c. c \<noteq> 0) data @ ascii '' (size: '' @
                       fmt_d (int (length data)) @ ascii '')'') @
       log_line False (ascii ''output_buf_path: stdout'') @ ys @ log_line False (ascii ''Cleanup...'')"
proof -
  let ?argv = "[prog, [45, 102, 0], kp @ [0], p @ [0]]"
  let ?b = "main_banner s"
  let ?a = "next_addr s"
  have hw: "heap_wf ?b" using wf by (simp add: prov_wf_def heap_wf_def)
  have kne: "kd \<noteq> []" and dne: "data \<noteq> []" using kd(4) d(2) by auto
  let ?t0 = "?b\<lparr>next_addr := Suc (next_addr ?b), alloc_count := Suc (alloc_count ?b),
                 params := (params ?b)(next_addr ?b \<mapsto> params_zero)\<rparr>"
  define prk where "prk = params_zero\<lparr>params_key := Suc ?a, params_key_size := word_of_nat (length kd)\<rparr>"
  define T where "T = ?t0\<lparr>blocks := (blocks ?t0)(next_addr ?t0 \<mapsto> kd), next_addr := Suc (next_addr ?t0),
       alloc_count := Suc (alloc_count ?t0),
       stdout_data := stdout_data ?t0 @ log_line False (ascii ''read_file: Successfully read file '' @ kp @
                                                         ascii '' size: '' @ fmt_d (int (length kd))),
       params := (params ?t0)(?a \<mapsto> prk)\<rparr>"
  have hw0: "heap_wf ?t0" using hw by (auto simp: heap_wf_def)
  have st1: "parse_args ?argv ?a 1 0 ?t0 = parse_args ?argv ?a 3 (Suc ?a) T"
    using parse_args_f [of 1 ?argv kp ?t0 kd ?a params_zero 0] kp kne kd(1) ok hw0
    by (simp add: params_zero_def T_def prk_def)
  define pr where "pr = prk\<lparr>input_buffer := Suc (Suc ?a), input_buffer_size := word_of_nat (length data)\<rparr>"
  define S where "S = T\<lparr>blocks := (blocks T)(next_addr T \<mapsto> data), next_addr := Suc (next_addr T),
          alloc_count := Suc (alloc_count T),
          stdout_data := stdout_data T @ log_line False (ascii ''read_file: Successfully read file '' @ p @
                                                          ascii '' size: '' @ fmt_d (int (length data))),
          params := (params T)(?a \<mapsto> pr)\<rparr>"
  have hwT: "heap_wf T" using hw by (auto simp: T_def heap_wf_def)
  have fsT: "fs T p = Some data" using p(5) by (simp add: T_def)
  have st2: "parse_args ?argv ?a 3 (Suc ?a) T = Some (True, next_addr T, S)"
    using parse_args_input_last [of T ?a prk p data prog "[45, 102, 0]" "kp @ [0]" "Suc ?a"] p(1-4) fsT dne d(1) hwT ok
    by (simp add: T_def prk_def params_zero_def S_def pr_def)
  have parse: "parse_cli_and_load ?argv ?b = Some (?a, S)"
    using parse_cli_and_load_start [of ?b ?argv "next_addr T" S pr] hw ok st1 st2
    by (simp add: S_def pr_def prk_def T_def)
  have a0: "0 < ?a" using wf by (simp add: prov_wf_def heap_wf_def)
  have uk16: "unat (word_of_nat (length kd) :: 16 word) = length kd" using kd(1) by (simp add: unat_of_nat)
  have uk8: "unat (ucast (word_of_nat (length kd) :: 16 word) :: byte) = length kd mod 256"
    using kd(1) by (simp add: unsigned_ucast_eq unat_of_nat take_bit_eq_mod)
  have ud: "unat (word_of_nat (length data) :: 32 word) = length data" using d(1) by (simp add: unat_of_nat)
  have ui: "uint (word_of_nat (length kd) :: 16 word) = int (length kd)" using uk16 by (metis uint_nat)
  have si: "sint (word_of_nat (length data) :: 32 word) = int (length data)" using d(1) by simp
  have wfS: "prov_wf S" using wf by (auto simp: S_def T_def prov_wf_def heap_wf_def)
  have pS: "params S ?a = Some pr" by (simp add: S_def)
  have okS: "\<forall>n. \<not> alloc_fails S n" using ok by (simp add: S_def T_def)
  have key: "blocks S (params_key pr) = Some kd" "0 < params_key pr" "unat (params_key_size pr) \<le> length kd"
    using uk16 by (simp_all add: S_def T_def pr_def prk_def params_zero_def)
  have ksz: "0 < unat (ucast (params_key_size pr) :: byte)" "unat (ucast (params_key_size pr) :: byte) < 255"
    using uk8 kd(2,3) by (simp_all add: pr_def prk_def params_zero_def)
  have inp: "blocks S (input_buffer pr) = Some data" "0 < input_buffer pr" "input_buffer pr \<noteq> params_key pr"
      "unat (input_buffer_size pr) = length data" "output_buffer_path pr = 0"
    using ud by (simp_all add: S_def T_def pr_def prk_def params_zero_def)
  have runS: "crypt_bytes (take (unat (ucast (params_key_size pr) :: byte)) kd) 0 data = (kb', j, ys)"
    using uk8 run by (simp add: pr_def prk_def params_zero_def)
  obtain s' where m: "main ?argv s = Some (0, s')" and out: "stdout_data s' = stdout_data S @
      log_line False (ascii ''key: '' @ takeWhile (\<lambda>c. c \<noteq> 0) kd @ ascii '' (size: '' @
                      fmt_d (uint (params_key_size pr)) @ ascii '')'') @
      log_line False (ascii ''input_buf: '' @ takeWhile (\<lambda>c. c \<noteq> 0) data @ ascii '' (size: '' @
                      fmt_d (sint (input_buffer_size pr)) @ ascii '')'') @
      log_line False (ascii ''output_buf_path: stdout'') @ ys @ log_line False (ascii ''Cleanup...'')"
    using main_file_mode_run [OF parse a0 pS wfS okS key kd(4) refl ksz inp(1-4) dne _ d(2) inp(5) runS] d(1) by auto
  show ?thesis
    using m out ui si by (intro exI [of _ s']) (simp add: S_def T_def pr_def prk_def params_zero_def)
qed

text \<open>C26. Non-termination of the argument loop: with the program name and 128 pairs "-o" "-" (257 arguments) the uint8_t index curr_arg runs through the odd values and wraps from 255 to 1, every round leaves the state as it is, and parse_cli_and_load never returns: its value is the bottom of the loop fixpoint.\<close>

theorem parse_cli_and_load_diverges:
  "parse_cli_and_load (prog # concat (replicate 128 [[45, 111, 0], [45, 0]])) s = None"
proof -
  let ?argv = "prog # concat (replicate 128 [[45, 111, (0::byte)], [45, 0]])"
  have o1: "odd (unat (1 :: 8 word))" by simp
  have "parse_args ?argv pp 1 0 t \<noteq> Some y" for pp and t :: "'a main_state_scheme" and y
    using parse_args_o_dash_diverges [of prog] o1 by blast
  then have "parse_args ?argv pp 1 0 t = None" for pp and t :: "'a main_state_scheme"
    by (cases "parse_args ?argv pp 1 0 t") auto
  then show ?thesis by (simp add: parse_cli_and_load_def split: prod.split)
qed

text \<open>C27. A second -k sends the parser to params_fail, which frees the parameter block but neither zeroes nor frees the key buffer: main returns -1 with the key bytes still live on the heap, and no block is released at all.\<close>

theorem main_duplicate_key_leaks_key:
  assumes hw: "heap_wf s" and ok: "\<not> alloc_fails s (alloc_count s)" "\<not> alloc_fails s (Suc (alloc_count s))"
    and k: "0 \<notin> set k" "length k < 255"
  shows "\<exists>s'. main [prog, [45, 107, 0], k @ [0], [45, 107, 0], k_other] s = Some (-1, s') \<and>
     blocks s' (Suc (next_addr s)) = Some k \<and> freed s' = freed s"
proof -
  let ?argv = "[prog, [45, 107, 0], k @ [0], [45, 107, 0], k_other]"
  let ?b = "main_banner s"
  let ?a = "next_addr s"
  let ?t0 = "?b\<lparr>next_addr := Suc (next_addr ?b), alloc_count := Suc (alloc_count ?b),
                 params := (params ?b)(next_addr ?b \<mapsto> params_zero)\<rparr>"
  define prk where "prk = params_zero\<lparr>params_key := Suc ?a, params_key_size := word_of_nat (length k)\<rparr>"
  define T where "T = ?t0\<lparr>next_addr := Suc (next_addr ?t0), alloc_count := Suc (alloc_count ?t0),
       blocks := (blocks ?t0)(next_addr ?t0 \<mapsto> k), params := (params ?t0)(?a \<mapsto> prk)\<rparr>"
  have hw0: "heap_wf ?t0" using hw by (auto simp: heap_wf_def)
  have st1: "parse_args ?argv ?a 1 0 ?t0 = parse_args ?argv ?a 3 0 T"
    using parse_args_k [of 1 ?argv k ?t0 ?a params_zero 0] k ok hw0
    by (simp add: params_zero_def T_def prk_def)
  have st2: "parse_args ?argv ?a 3 0 T = Some (False, 0, debug True (ascii ''Key parameter already set, exiting'') T)"
    by (subst parse_args.simps) (simp add: arg_matches_def T_def prk_def)
  have a0: "0 < ?a" using hw by (simp add: heap_wf_def)
  define U where "U = debug True (ascii ''Key parameter already set, exiting'') T"
  have pf: "params_fail ?a U = Some (0, U\<lparr>params := (params U)(?a := None)\<rparr>)"
    using a0 by (simp add: params_fail_def U_def T_def prk_def params_zero_def)
  define X where "X = U\<lparr>params := (params U)(?a := None)\<rparr>"
  have "parse_cli_and_load ?argv ?b = Some (0, X)"
    using st1 st2 pf ok(1) a0 by (simp add: parse_cli_and_load_def alloc_addr_def U_def X_def)
  then have "main ?argv s = Some (-1, print_help X)" by (simp add: main_def)
  moreover obtain t where "print_help X = X\<lparr>stdout_data := stdout_data X @ t\<rparr>"
    using print_help_stdout by blast
  ultimately show ?thesis by (simp add: X_def U_def T_def debug_def)
qed

text \<open>C28. The branch of the input file advances curr_arg once more than it consumes, so the option after the input file is skipped: crypt FILE -k KEY takes KEY for a second input file and main returns -1 with the help text, without reading standard input, creating a context or writing anything but the banner, the file-read notice and the help.\<close>

theorem main_option_after_input_skipped:
  assumes wf: "heap_wf s" and ok: "\<forall>n. \<not> alloc_fails s n"
    and p: "0 \<notin> set p" "p \<noteq> []" "hd p \<noteq> 45" "length p < 255" "fs s p = Some data"
    and d: "data \<noteq> []" "length data < 65535"
    and k: "k \<noteq> []" "hd k \<noteq> 45"
  shows "\<exists>s'. main [prog, p @ [0], [45, 107, 0], k @ [0]] s = Some (-1, s') \<and>
     stdin_rest s' = stdin_rest s \<and> ctxs s' = ctxs s \<and>
     stdout_data s' = stdout_data (print_help (debug False (ascii ''read_file: Successfully read file '' @ p @
                                                              ascii '' size: '' @ fmt_d (int (length data))) (main_banner s)))"
proof -
  let ?argv = "[prog, p @ [0], [45, 107, 0], k @ [0]]"
  let ?b = "main_banner s"
  let ?a = "next_addr s"
  let ?t0 = "?b\<lparr>next_addr := Suc (next_addr ?b), alloc_count := Suc (alloc_count ?b),
                 params := (params ?b)(next_addr ?b \<mapsto> params_zero)\<rparr>"
  define pri where "pri = params_zero\<lparr>input_buffer := Suc ?a, input_buffer_size := word_of_nat (length data)\<rparr>"
  define T where "T = ?t0\<lparr>blocks := (blocks ?t0)(next_addr ?t0 \<mapsto> data), next_addr := Suc (next_addr ?t0),
          alloc_count := Suc (alloc_count ?t0),
          stdout_data := stdout_data ?t0 @ log_line False (ascii ''read_file: Successfully read file '' @ p @
                                                          ascii '' size: '' @ fmt_d (int (length data))),
          params := (params ?t0)(?a \<mapsto> pri)\<rparr>"
  have hw0: "heap_wf ?t0" using wf by (auto simp: heap_wf_def)
  have st1: "parse_args ?argv ?a 1 0 ?t0 = parse_args ?argv ?a 3 (Suc ?a) T"
    using parse_args_input [of 1 ?argv p ?t0 data ?a params_zero 0] p d ok hw0
    by (simp add: params_zero_def T_def pri_def)
  have nm: "\<not> arg_matches x (k @ [0])" for x using arg_matches_cstr [OF k] .
  have st2: "parse_args ?argv ?a 3 (Suc ?a) T = Some (False, Suc ?a, T)"
    using nm by (subst parse_args.simps) (simp add: T_def pri_def params_zero_def)
  have a0: "0 < ?a" using wf by (simp add: heap_wf_def)
  have ud: "unat (word_of_nat (length data) :: 32 word) = length data" using d(2) by (simp add: unat_of_nat)
  obtain T' where pf: "params_fail ?a T = Some (0, T')" and T': "stdin_rest T' = stdin_rest s" "ctxs T' = ctxs s"
      "stdout_data T' = stdout_data T"
    using a0 ud by (simp add: params_fail_def T_def pri_def params_zero_def memset_Some free_Some)
  have "parse_cli_and_load ?argv ?b = Some (0, T')"
    using st1 st2 pf ok a0 by (simp add: parse_cli_and_load_def alloc_addr_def)
  then have "main ?argv s = Some (-1, print_help T')" by (simp add: main_def)
  moreover obtain t where "print_help T' = T'\<lparr>stdout_data := stdout_data T' @ t\<rparr>"
    using print_help_stdout by blast
  moreover have "stdout_data T' = stdout_data (debug False (ascii ''read_file: Successfully read file '' @ p @
                                                              ascii '' size: '' @ fmt_d (int (length data))) ?b)"
    using T'(3) by (simp add: T_def)
  ultimately show ?thesis using T'(1,2) print_help_same_stdout by fastforce
qed

text \<open>C29. crypt -k KEY copies the key into a block of exactly strnlen(KEY) bytes, without a terminator, and print_cli_params prints it with %s: the read runs past the end of the block, so every run with the key on the command line has undefined behaviour before any data is processed.\<close>

theorem main_key_arg_overread:
  assumes hw: "heap_wf s" and ok: "\<forall>n. \<not> alloc_fails s n" and k: "0 \<notin> set k" "length k < 255"
  shows "main [prog, [45, 107, 0], k @ [0]] s = None"
proof -
  let ?argv = "[prog, [45, 107, 0], k @ [0]]"
  let ?b = "main_banner s"
  let ?a = "next_addr s"
  let ?t0 = "?b\<lparr>next_addr := Suc (next_addr ?b), alloc_count := Suc (alloc_count ?b),
                 params := (params ?b)(next_addr ?b \<mapsto> params_zero)\<rparr>"
  define prk where "prk = params_zero\<lparr>params_key := Suc ?a, params_key_size := word_of_nat (length k)\<rparr>"
  define T where "T = ?t0\<lparr>next_addr := Suc (next_addr ?t0), alloc_count := Suc (alloc_count ?t0),
       blocks := (blocks ?t0)(next_addr ?t0 \<mapsto> k), params := (params ?t0)(?a \<mapsto> prk)\<rparr>"
  have hb: "heap_wf ?b" using hw by (simp add: heap_wf_def)
  have hw0: "heap_wf ?t0" using hb by (auto simp: heap_wf_def)
  have st1: "parse_args ?argv ?a 1 0 ?t0 = parse_args ?argv ?a 3 0 T"
    using parse_args_k [of 1 ?argv k ?t0 ?a params_zero 0] k ok hw0
    by (simp add: params_zero_def T_def prk_def)
  have st2: "parse_args ?argv ?a 3 0 T = Some (True, 0, T)" by (rule parse_args_end) simp
  have parse: "parse_cli_and_load ?argv ?b = Some (?a, T)"
    using parse_cli_and_load_start [of ?b ?argv 0 T prk] hb ok st1 st2 by (simp add: T_def prk_def)
  have a0: "0 < ?a" using hw by (simp add: heap_wf_def)
  have pc: "print_cli_params ?a T = None"
    using a0 k(1) by (simp add: print_cli_params_def T_def prk_def load_cstr_def)
  show ?thesis using parse pc a0 by (simp add: main_def T_def prk_def)
qed

text \<open>C30. crypt -f with no path after it: is_path_valid is not consulted, and the error line prints argv[2], which is argv[argc] = NULL, with %s: undefined behaviour.\<close>

theorem main_key_file_path_missing:
  assumes hw: "heap_wf s" and ok: "\<not> alloc_fails s (alloc_count s)"
  shows "main [prog, [45, 102, 0]] s = None"
proof -
  let ?argv = "[prog, [45, 102, (0::byte)]]"
  let ?b = "main_banner s"
  have "parse_args ?argv (next_addr ?b) 1 0 (?b\<lparr>next_addr := Suc (next_addr ?b), alloc_count := Suc (alloc_count ?b),
          params := (params ?b)(next_addr ?b \<mapsto> params_zero)\<rparr>) = None"
    by (subst parse_args.simps) (simp add: arg_matches_def argv_at_def fmt_s_def params_zero_def)
  then have "parse_cli_and_load ?argv ?b = None"
    using hw ok by (simp add: parse_cli_and_load_def alloc_addr_def heap_wf_def)
  then show ?thesis by (simp add: main_def)
qed

text \<open>C31. Without -k or -f the key is prompted for on standard input, and get_stdin_user always yields an empty key (C13), which crypt_alloc_context accepts: crypt -o - consumes the first input line as the key, then copies the rest of standard input up to the first 0xFF to standard output unencrypted, returns 0, and prints an empty key among its log lines.\<close>

theorem main_prompted_key_plaintext:
  assumes wf: "prov_wf s" and ok: "\<forall>n. \<not> alloc_fails s n"
  shows "\<exists>s'. main [prog, [45, 111, 0], [45, 0]] s = Some (0, s') \<and>
     stdout_data s' = stdout_data (main_banner s) @ log_line False (ascii ''Enter symmetric key: '') @
       log_line False (ascii ''key:  (size: 0)'') @ log_line False (ascii ''input_buf: stdin'') @
       log_line False (ascii ''output_buf_path: stdout'') @
       take (16 * (length (takeWhile (\<lambda>x. x \<noteq> 0xFF) (line_rest (stdin_rest s))) div 16))
         (takeWhile (\<lambda>x. x \<noteq> 0xFF) (line_rest (stdin_rest s))) @ eof_notice @
       drop (16 * (length (takeWhile (\<lambda>x. x \<noteq> 0xFF) (line_rest (stdin_rest s))) div 16))
         (takeWhile (\<lambda>x. x \<noteq> 0xFF) (line_rest (stdin_rest s))) @
       log_line False (ascii ''mode_input_stdin: total read: '' @
         fmt_d (sint (word_of_nat (length (takeWhile (\<lambda>x. x \<noteq> 0xFF) (line_rest (stdin_rest s)))) :: 32 word))) @
       log_line False (ascii ''Cleanup...'')"
proof -
  let ?argv = "[prog, [45, 111, 0], [45, (0::byte)]]"
  let ?b = "main_banner s"
  let ?a = "next_addr s"
  let ?t0 = "?b\<lparr>next_addr := Suc (next_addr ?b), alloc_count := Suc (alloc_count ?b),
                 params := (params ?b)(next_addr ?b \<mapsto> params_zero)\<rparr>"
  have hw: "heap_wf s" using wf by (simp add: prov_wf_def)
  have a0: "0 < ?a" using hw by (simp add: heap_wf_def)
  have sl: "strnlen (Some [45, 0]) MAX_FILE_PATH = Some 1"
    using strnlen_cstr_end [of "[45]" MAX_FILE_PATH] by (simp add: MAX_FILE_PATH_def)
  have "parse_args ?argv ?a 1 0 ?t0 = parse_args ?argv ?a 3 0 ?t0"
    using sl by (subst parse_args.simps) (simp add: arg_matches_def argv_at_def MAX_FILE_PATH_def word_le_nat_alt)
  also have "\<dots> = Some (True, 0, ?t0)" by (rule parse_args_end) simp
  finally have st: "parse_args ?argv ?a 1 0 ?t0 = Some (True, 0, ?t0)" .
  define m1 where "m1 = debug False (ascii ''Enter symmetric key: '') ?t0"
  have hm1: "heap_wf m1" using hw by (auto simp: m1_def heap_wf_def)
  have okm1: "\<not> alloc_fails m1 (alloc_count m1)" using ok by (simp add: m1_def)
  have mx: "unat (ucast CRYPT_MAX_KEY_LEN :: 32 word) = 255" by (simp add: CRYPT_MAX_KEY_LEN_def)
  have gs: "get_stdin_user (ucast CRYPT_MAX_KEY_LEN) m1 =
     Some (Suc ?a, 0, m1\<lparr>blocks := (blocks m1)(Suc ?a \<mapsto> replicate 255 0),
                          next_addr := Suc (Suc ?a), alloc_count := Suc (Suc (alloc_count s)),
                          stdin_rest := line_rest (stdin_rest s)\<rparr>)"
    using get_stdin_user_empty_key [OF hm1 okm1, of "ucast CRYPT_MAX_KEY_LEN"] mx
    by (simp add: m1_def CRYPT_MAX_KEY_LEN_def)
  define prk where "prk = params_zero\<lparr>params_key := Suc ?a\<rparr>"
  define S where "S = m1\<lparr>blocks := (blocks m1)(Suc ?a \<mapsto> replicate 255 0),
                          next_addr := Suc (Suc ?a), alloc_count := Suc (Suc (alloc_count s)),
                          stdin_rest := line_rest (stdin_rest s), params := (params m1)(?a \<mapsto> prk)\<rparr>"
  have parse: "parse_cli_and_load ?argv ?b = Some (?a, S)"
    using st gs ok a0
    by (simp add: parse_cli_and_load_def alloc_addr_def params_upd_def params_zero_def S_def prk_def m1_def)
  have wfS: "prov_wf S" using wf by (auto simp: S_def m1_def prov_wf_def heap_wf_def)
  have pS: "params S ?a = Some prk" by (simp add: S_def)
  have okS: "\<forall>n. \<not> alloc_fails S n" using ok by (simp add: S_def m1_def)
  have key: "blocks S (params_key prk) = Some (replicate 255 0)" "0 < params_key prk"
      "unat (params_key_size prk) \<le> length (replicate 255 (0::byte))" "0 \<in> set (replicate 255 (0::byte))"
    by (simp_all add: S_def prk_def params_zero_def)
  have ksz: "unat (ucast (params_key_size prk) :: byte) = unat (params_key_size prk)"
      "unat (ucast (params_key_size prk) :: byte) < 255"
    by (simp_all add: prk_def params_zero_def)
  have io: "input_buffer prk = 0" "output_buffer_path prk = 0" by (simp_all add: prk_def params_zero_def)
  have inS: "stdin_rest S = line_rest (stdin_rest s)" by (simp add: S_def)
  have runS: "crypt_step (ucast (ucast (params_key_size prk) :: byte)) (take (unat (ucast (params_key_size prk) :: byte)) (replicate 255 0)) 0
      (takeWhile (\<lambda>x. x \<noteq> 0xFF) (stdin_rest S)) =
      ([], 0, takeWhile (\<lambda>x. x \<noteq> 0xFF) (line_rest (stdin_rest s)))"
    using inS by (simp add: crypt_step_def prk_def params_zero_def)
  obtain s' where m: "main ?argv s = Some (0, s')" and out: "stdout_data s' = stdout_data S @
      log_line False (ascii ''key: '' @ takeWhile (\<lambda>c. c \<noteq> 0) (replicate 255 0) @ ascii '' (size: '' @
                      fmt_d (uint (params_key_size prk)) @ ascii '')'') @
      log_line False (ascii ''input_buf: stdin'') @ log_line False (ascii ''output_buf_path: stdout'') @
      take (16 * (length (takeWhile (\<lambda>x. x \<noteq> 0xFF) (stdin_rest S)) div 16))
        (takeWhile (\<lambda>x. x \<noteq> 0xFF) (line_rest (stdin_rest s))) @ eof_notice @
      drop (16 * (length (takeWhile (\<lambda>x. x \<noteq> 0xFF) (stdin_rest S)) div 16))
        (takeWhile (\<lambda>x. x \<noteq> 0xFF) (line_rest (stdin_rest s))) @
      log_line False (ascii ''mode_input_stdin: total read: '' @
        fmt_d (sint (word_of_nat (length (takeWhile (\<lambda>x. x \<noteq> 0xFF) (stdin_rest S))) :: 32 word))) @
      log_line False (ascii ''Cleanup...'')"
    using main_stdin_mode_run [OF parse a0 pS wfS okS key refl ksz io runS] by blast
  have kl: "log_line False (ascii ''key: '' @ takeWhile (\<lambda>c. c \<noteq> 0) (replicate 255 (0::byte)) @ ascii '' (size: '' @
                      fmt_d (uint (params_key_size prk)) @ ascii '')'') = log_line False (ascii ''key:  (size: 0)'')"
    by (simp add: prk_def params_zero_def fmt_simps)
  have "stdout_data S = stdout_data ?b @ log_line False (ascii ''Enter symmetric key: '')"
    by (simp add: S_def m1_def)
  then show ?thesis using m out kl inS by (intro exI [of _ s']) simp
qed

text \<open>C32. The parameter block that parse_cli_and_load returns is well formed: whenever it returns a non-null block, from a well-formed heap, the key field points to a live block of at least params_key_size bytes, the input buffer to a live block of at least input_buffer_size bytes, the output path to a live block that holds a terminator, no two of these non-null fields share a block, and the heap stays well formed. This holds for every argument vector, through every -k, -f, -o and input-file branch of the argument loop and through the key prompt.\<close>

theorem parse_cli_and_load_params_wf:
  fixes s :: "'a main_state_scheme"
  assumes wf: "heap_wf s" and run: "parse_cli_and_load argv s = Some (pp, s')" and pp: "0 < pp"
  shows "heap_wf s' \<and> params_wf s' pp"
proof -
  have argc: "\<not> length argv \<le> 1" using run pp by (auto simp: parse_cli_and_load_def)
  obtain p0 s1 where aa: "alloc_addr s = (p0, s1)" by fastforce
  note a1 = alloc_addr_main [OF wf aa]
  define s2 where "s2 = (if p0 = 0 then s1 else s1\<lparr>params := (params s1)(p0 \<mapsto> params_zero)\<rparr>)"
  have body: "(do {
          (ok, _, s3) \<leftarrow> parse_args argv p0 1 0 s2;
          if \<not> ok then params_fail p0 s3
          else case params s3 p0 of
            None \<Rightarrow> None
          | Some pr \<Rightarrow>
              if params_key pr \<noteq> 0 then Some (p0, s3)
              else do {
                (k, sz, s4) \<leftarrow> get_stdin_user (ucast CRYPT_MAX_KEY_LEN) (debug False (ascii ''Enter symmetric key: '') s3);
                s5 \<leftarrow> params_upd p0 (\<lambda>p. p\<lparr>params_key_size := sz\<rparr>) s4;
                if k = 0 then params_fail p0 (debug True (ascii ''Failed to get symmetric key'') s5)
                else do {
                  s6 \<leftarrow> params_upd p0 (\<lambda>p. p\<lparr>params_key := k\<rparr>) s5;
                  Some (p0, s6)
                }
              }
        }) = Some (pp, s')"
    using run argc aa by (simp add: parse_cli_and_load_def s2_def)
  then obtain ok b3 s3 where pa: "parse_args argv p0 1 0 s2 = Some (ok, b3, s3)"
    and rest: "(if \<not> ok then params_fail p0 s3
          else case params s3 p0 of
            None \<Rightarrow> None
          | Some pr \<Rightarrow>
              if params_key pr \<noteq> 0 then Some (p0, s3)
              else do {
                (k, sz, s4) \<leftarrow> get_stdin_user (ucast CRYPT_MAX_KEY_LEN) (debug False (ascii ''Enter symmetric key: '') s3);
                s5 \<leftarrow> params_upd p0 (\<lambda>p. p\<lparr>params_key_size := sz\<rparr>) s4;
                if k = 0 then params_fail p0 (debug True (ascii ''Failed to get symmetric key'') s5)
                else do {
                  s6 \<leftarrow> params_upd p0 (\<lambda>p. p\<lparr>params_key := k\<rparr>) s5;
                  Some (p0, s6)
                }
              }) = Some (pp, s')"
    by (auto simp: bind_eq_Some_conv)
  have ok: ok using rest pp params_fail_null by (cases ok) auto
  then obtain pr where pr: "params s3 p0 = Some pr" using rest by (auto split: option.splits)
  have p0: "p0 = pp" using rest ok pr pp
    by (auto simp: bind_eq_Some_conv params_upd_def split: if_splits prod.splits dest!: params_fail_null)
  have s2: "heap_wf s2" "params_wf s2 pp"
    using a1 p0 pp by (simp_all add: s2_def params_wf_zero)
  have s3: "heap_wf s3" "params_wf s3 pp" using parse_args_wf s2 pa p0 by fastforce+
  show ?thesis
  proof (cases "params_key pr = 0")
    case False
    then show ?thesis using rest ok pr s3 by simp
  next
    case kz: True
    let ?d = "debug False (ascii ''Enter symmetric key: '') s3"
    from rest ok pr kz obtain k sz s4 s5 s6 where
      gu: "get_stdin_user (ucast CRYPT_MAX_KEY_LEN) ?d = Some (k, sz, s4)"
      and u5: "params_upd p0 (\<lambda>p. p\<lparr>params_key_size := sz\<rparr>) s4 = Some s5" and k: "k \<noteq> 0"
      and u6: "params_upd p0 (\<lambda>p. p\<lparr>params_key := k\<rparr>) s5 = Some s6" and s': "s' = s6"
      using pp by (auto simp: bind_eq_Some_conv split: if_splits prod.splits dest!: params_fail_null)
    note g = get_stdin_user_wf [of ?d, OF _ gu]
    have g4: "heap_wf s4" "blocks_grow s3 s4" "params s4 pp = params s3 pp" "blocks s3 k = None"
      "live_len s4 k (unat sz)" using g s3(1) k p0 by simp_all
    have s6: "s6 = s4\<lparr>params := (params s4)(pp \<mapsto> pr\<lparr>params_key := k, params_key_size := sz\<rparr>)\<rparr>"
    proof -
      have "pr\<lparr>params_key_size := sz, params_key := k\<rparr> = pr\<lparr>params_key := k, params_key_size := sz\<rparr>"
        by (cases pr) simp
      note e = this
      have "s6 = s4\<lparr>params := (params s4)(pp \<mapsto> pr\<lparr>params_key_size := sz, params_key := k\<rparr>)\<rparr>"
        using u5 u6 g4(3) pr p0 by (auto simp: params_upd_def)
      then show ?thesis by (simp only: e)
    qed
    have "params_wf s6 pp"
      unfolding s6 using params_wf_set(1) [OF s3(2) pr [unfolded p0] g4(2,3), of k sz] kz g4(4,5) by blast
    moreover have "heap_wf s6" using g4(1) s6 by simp
    ultimately show ?thesis using s' by simp
  qed
qed

subsection \<open>Witnesses\<close>

theorem main_key_file_encrypts_stdin_witness:
  "\<exists>s'. main [[0x63, 0], [45, 102, 0], [0x6A] @ [0]] cli_demo = Some (0, s') \<and>
     stdout_data s' = stdout_data (main_banner cli_demo) @
       log_line False (ascii ''read_file: Successfully read file j size: 3'') @
       log_line False (ascii ''key: AB (size: 3)'') @
       log_line False (ascii ''input_buf: stdin'') @ log_line False (ascii ''output_buf_path: stdout'') @
       eof_notice @ [57, 73, 106, 40] @
       log_line False (ascii ''mode_input_stdin: total read: 4'') @ log_line False (ascii ''Cleanup...'')"
  using main_key_file_encrypts_stdin [where s = cli_demo and kp = "[0x6A]" and kd = "[0x41, 0x42, 0]"
      and kb' = "[65, 67, 2]" and j = 1 and ys = "[57, 73, 106, 40]" and prog = "[0x63, 0]"]
  by (simp add: cli_demo_simps fmt_simps)

theorem main_key_file_truncated_witness:
  "\<exists>s'. main [[0x63, 0], [45, 102, 0], [0x6B] @ [0], [0x69] @ [0]] cli_demo = Some (0, s') \<and>
     stdout_data s' = stdout_data (main_banner cli_demo) @
       log_line False (ascii ''read_file: Successfully read file k size: 258'') @
       log_line False (ascii ''read_file: Successfully read file i size: 3'') @
       log_line False (ascii ''key: '' @ replicate 257 0x41 @ ascii '' (size: 258)'') @
       log_line False (ascii ''input_buf: hi (size: 3)'') @
       log_line False (ascii ''output_buf_path: stdout'') @ [41, 43, 65] @ log_line False (ascii ''Cleanup...'')"
proof -
  have t: "take (length (replicate 257 (0x41::byte) @ [0]) mod 256) (replicate 257 0x41 @ [0]) = [0x41, 0x41]"
    by (simp add: numeral_2_eq_2)
  have r: "crypt_bytes (take (length (replicate 257 (0x41::byte) @ [0]) mod 256) (replicate 257 0x41 @ [0])) 0
      [0x68, 0x69, 0] = ([65, 66], 1, [41, 43, 65])"
    by (simp only: t) simp
  show ?thesis
    using main_key_file_truncated [where s = cli_demo and kp = "[0x6B]" and kd = "replicate 257 0x41 @ [0]"
        and p = "[0x69]" and data = "[0x68, 0x69, 0]" and kb' = "[65, 66]" and j = 1 and ys = "[41, 43, 65]"
        and prog = "[0x63, 0]"] r
    by (simp add: cli_demo_simps fmt_simps)
qed

theorem main_duplicate_key_leaks_key_witness:
  "\<exists>s'. main [[0x63, 0], [45, 107, 0], [0x41] @ [0], [45, 107, 0], [0x42, 0]] cli_demo = Some (-1, s') \<and>
     blocks s' (Suc (next_addr cli_demo)) = Some [0x41] \<and> freed s' = freed cli_demo"
  using main_duplicate_key_leaks_key [where s = cli_demo and k = "[0x41]" and prog = "[0x63, 0]" and k_other = "[0x42, 0]"]
  by (simp add: cli_demo_simps)

theorem main_option_after_input_skipped_witness:
  "\<exists>s'. main [[0x63, 0], [0x69] @ [0], [45, 107, 0], [0x41] @ [0]] cli_demo = Some (-1, s') \<and>
     stdin_rest s' = stdin_rest cli_demo \<and> ctxs s' = ctxs cli_demo \<and>
     stdout_data s' = stdout_data (print_help (debug False (ascii ''read_file: Successfully read file i size: 3'')
                                                (main_banner cli_demo)))"
  using main_option_after_input_skipped [where s = cli_demo and p = "[0x69]" and data = "[0x68, 0x69, 0]"
      and k = "[0x41]" and prog = "[0x63, 0]"]
  by (simp add: cli_demo_simps fmt_simps)

theorem main_key_arg_overread_witness: "main [[0x63, 0], [45, 107, 0], [0x41, 0x42] @ [0]] cli_demo = None"
  using main_key_arg_overread [where s = cli_demo and k = "[0x41, 0x42]" and prog = "[0x63, 0]"]
  by (simp add: cli_demo_simps)

theorem main_key_file_path_missing_witness: "main [[0x63, 0], [45, 102, 0]] cli_demo = None"
  using main_key_file_path_missing [where s = cli_demo and prog = "[0x63, 0]"]
  by (simp add: cli_demo_simps)

theorem main_prompted_key_plaintext_witness:
  "\<exists>s'. main [[0x63, 0], [45, 111, 0], [45, 0]] cli_demo = Some (0, s') \<and>
     stdout_data s' = stdout_data (main_banner cli_demo) @ log_line False (ascii ''Enter symmetric key: '') @
       log_line False (ascii ''key:  (size: 0)'') @ log_line False (ascii ''input_buf: stdin'') @
       log_line False (ascii ''output_buf_path: stdout'') @ eof_notice @ [0x68, 0x69] @
       log_line False (ascii ''mode_input_stdin: total read: 2'') @ log_line False (ascii ''Cleanup...'')"
  using main_prompted_key_plaintext [where s = cli_demo and prog = "[0x63, 0]"]
  by (simp add: cli_demo_simps fmt_simps line_rest_def)

theorem parse_cli_and_load_params_wf_witness:
  "\<exists>s'. parse_cli_and_load [[0x63, 0], [45, 107, 0], [0x41, 0]] cli_demo = Some (1, s') \<and>
     heap_wf s' \<and> params_wf s' 1"
proof -
  let ?argv = "[[0x63, 0], [45, 107, 0], [0x41, 0]] :: byte list list"
  let ?t0 = "cli_demo\<lparr>next_addr := Suc (next_addr cli_demo), alloc_count := Suc (alloc_count cli_demo),
                 params := (params cli_demo)(next_addr cli_demo \<mapsto> params_zero)\<rparr>"
  define T where "T = ?t0\<lparr>next_addr := Suc (next_addr ?t0), alloc_count := Suc (alloc_count ?t0),
          blocks := (blocks ?t0)(next_addr ?t0 \<mapsto> [0x41]),
          params := (params ?t0)(1 \<mapsto> params_zero\<lparr>params_key := next_addr ?t0, params_key_size := 1\<rparr>)\<rparr>"
  have hw0: "heap_wf ?t0" by (simp add: cli_demo_simps)
  have "parse_args ?argv 1 1 0 ?t0 = parse_args ?argv 1 3 0 T"
    using parse_args_k [of 1 ?argv "[0x41]" ?t0 1 params_zero 0] hw0
    by (simp add: T_def cli_demo_def params_zero_def)
  also have "\<dots> = Some (True, 0, T)" by (rule parse_args_end) simp
  finally have pa: "parse_args ?argv 1 1 0 ?t0 = Some (True, 0, T)" .
  have run: "parse_cli_and_load ?argv cli_demo = Some (1, T)"
    using parse_cli_and_load_start [of cli_demo ?argv 0 T "params_zero\<lparr>params_key := 2, params_key_size := 1\<rparr>"] pa
    by (simp add: cli_demo_simps T_def)
  have "heap_wf T \<and> params_wf T 1"
    using parse_cli_and_load_params_wf [OF _ run] by (simp add: cli_demo_simps)
  then show ?thesis using run by blast
qed

end
