(* ===== verification/Spec2Isabelle.thy ===== *)
theory Spec2Isabelle
  imports CryptCli
begin

text \<open>
  \<^bold>\<open>A verification development of minicrypt.\<close>

  minicrypt is a symmetric stream transform and a command-line tool around it.
  The library \<open>libcryptprov\<close> (\<open>src/src/libcryptprov/libcryptprov.c\<close>,
  \<open>src/include/libcryptprov.h\<close>) keeps a key and a cursor in a
  \<open>struct crypt_context\<close> and transforms buffers with it; the tool
  (\<open>src/src/cryptmain.c\<close>, \<open>src/src/cryptmain.h\<close>) reads a key (from the command
  line, a file or a prompt) and an input (a file, or standard input in 16-byte
  chunks), transforms it with one context and writes the result to a file or to
  standard output, using the helpers of \<open>src/src/util.c\<close>. Every step logs through
  \<open>debug\<close> to standard output, the same stream that carries the data.

  \<^bold>\<open>Theories.\<close>
  \<^item> \<open>Prelude\<close>: the process state \<open>machine\<close> (a block heap with an allocation
    oracle and a log of freed blocks, standard input and output as byte lists, the
    file system as a map from path bytes to contents) and the C library primitives
    the code calls (\<open>malloc\<close>/\<open>calloc\<close>, \<open>free\<close>, \<open>memset\<close>, \<open>memcpy\<close>,
    \<open>fgetc\<close>, stack arrays, C strings in the heap), with their evaluation rules
    (\<open>mem_simps\<close>). Undefined behaviour is \<open>None\<close>.
  \<^item> \<open>Logging\<close>: \<open>debug\<close> of \<open>util.c\<close> (\<open>DEBUG_ERR\<close>/\<open>DEBUG_INFO\<close>) appends a
    prefixed line to standard output; the \<open>printf\<close> conversions \<open>%s\<close>, \<open>%d\<close>,
    \<open>%08x\<close> its callers use.
  \<^item> \<open>CryptProv\<close>: \<open>crypt_alloc_context\<close>, \<open>crypt_free_context\<close>, \<open>crypt_buffer\<close>
    with its loop \<open>crypt_loop\<close>, the version queries, over \<open>prov_state\<close> (the
    machine plus a store of contexts). \<open>crypt_bytes\<close> is the algorithm of the
    specification on lists; \<open>crypt_loop_refines\<close> proves that the heap loop computes
    it, also when the output buffer is the input buffer.
  \<^item> \<open>Util\<close>: \<open>strnlen\<close>, \<open>is_path_valid\<close>, \<open>read_file_into_memory\<close>,
    \<open>write_to_file\<close>, \<open>read_from_stdin\<close>, \<open>get_stdin_user\<close> of \<open>util.c\<close>, with
    their log lines.
  \<^item> \<open>CryptMain\<close>: \<open>struct crypt_params\<close> in a store of \<open>main_state\<close>,
    \<open>write_output_buffer\<close>, \<open>mode_input_file\<close>, \<open>mode_input_stdin\<close> (its loop a
    \<open>partial_function (option)\<close>), \<open>free_cli_params\<close>.
  \<^item> \<open>Params\<close>: the shape \<open>params_wf\<close> of the parameter block (each non-null
    pointer a live block at least as long as its recorded size, the output path a
    live block with a terminator, no two fields sharing a block), \<open>blocks_grow\<close>
    (a step only adds blocks), and the lemmas that the allocations, copies and file
    reads of the argument loop and the key prompt keep both.
  \<^item> \<open>CryptCli\<close>: \<open>parse_cli_and_load\<close> (its argument loop \<open>parse_args\<close>, with
    the \<open>uint8_t\<close> index \<open>curr_arg\<close> as an \<open>8 word\<close>, \<open>params_fail\<close>, the flags
    \<open>-h\<close>, \<open>-k\<close>, \<open>-f\<close>, \<open>-o\<close> and the key prompt), \<open>print_help\<close>,
    \<open>print_cli_params\<close> and \<open>main\<close>: banner, parse, print the parameters, allocate
    the context with the key size passed as \<open>uint8_t\<close>, run one I/O mode, release.
    \<open>argv\<close> is a list of byte strings, \<open>argv[argc]\<close> is \<open>NULL\<close>.

  \<^bold>\<open>Properties.\<close>
  C1--C11 (\<open>CryptProv\<close>): chunk invariance of \<open>crypt_buffer\<close>, the round trip,
  in-place equals out-of-place, preservation of the context invariant
  \<open>ctx_inv\<close>, zeroing of the key on release, the success and failure paths of
  \<open>crypt_alloc_context\<close> and the error codes of \<open>crypt_buffer\<close>.
  C12--C18 (\<open>Util\<close>): \<open>read_from_stdin\<close> stops at the byte \<open>0xFF\<close>,
  \<open>get_stdin_user\<close> always yields an empty key, the size bound and 32-bit wrap of
  \<open>read_file_into_memory\<close>, ordered appends of \<open>write_to_file\<close>, \<open>strnlen\<close>.
  C19--C23 (\<open>CryptMain\<close>): stdin mode writes \<open>crypt_bytes\<close> of the input
  up to the first \<open>0xFF\<close>, with the end-of-input notice between the full chunks and
  the last one (and the plaintext for the empty key), and so returns on every finite
  input; file mode writes \<open>crypt_bytes\<close> of the file; an error code equal to the
  input size passes for success; the output buffer leaks on error.
  C24--C31 (\<open>CryptCli\<close>): the end-to-end output of \<open>crypt -f KEYFILE\<close>
  on standard input (data and log on one stream, the key printed among the log),
  a key file truncated to its length modulo 256, \<open>-o -\<close> repeated 128 times makes
  \<open>parse_cli_and_load\<close> loop for ever, a second \<open>-k\<close> leaves the key live in the
  heap, an option after the input file is rejected, a key on the command line is
  printed with \<open>%s\<close> past the end of its unterminated block (undefined), so is the
  \<open>NULL\<close> after a trailing \<open>-f\<close>, and a prompted key is always empty, so
  \<open>crypt -o -\<close> copies its input to standard output unencrypted.
  C32 (\<open>CryptCli\<close>, over \<open>Params\<close>): every parameter block \<open>parse_cli_and_load\<close>
  returns satisfies \<open>params_wf\<close>, for every argument vector, so the sizes \<open>main\<close>
  passes on describe live memory.

  \<^bold>\<open>Loops and bounds.\<close> The loops of \<open>crypt_buffer\<close>, \<open>strnlen\<close> and
  \<open>read_from_stdin\<close> are bounded by their length argument (\<open>function\<close> with a
  measure); \<open>get_stdin_user\<close> consumes one input byte per round (measure: the length
  of the remaining input). The stdin loop of the tool ends only on a short read, so
  it is a \<open>partial_function (option)\<close>; \<open>mode_input_stdin_loop_spec\<close> proves that
  it returns on every finite input, by induction on the remaining input. The
  argument loop of \<open>parse_cli_and_load\<close> compares a \<open>uint8_t\<close> index with
  \<open>argc\<close>, so it need not end: it is a \<open>partial_function (option)\<close> too, its
  runs are proved by unfolding it once per argument, its divergence by fixpoint
  induction (\<open>parse_args.fixp_induct\<close>) over an invariant of the argument pairs,
  and the shape of the parameter block by fixpoint induction over the predicate
  "every returned state keeps \<open>params_wf\<close>" (\<open>parse_args_wf\<close>), which is
  admissible because it speaks only of results that are returned.
  Word widths follow the source: \<open>uint8_t\<close> key bytes and cursor, \<open>uint16_t\<close> key
  size, \<open>uint32_t\<close> lengths, with the \<open>int\<close> promotion of the key update written
  out; a \<open>uint32_t\<close> printed with \<open>%d\<close> is read as a signed \<open>int\<close>.

  \<^bold>\<open>Not modelled.\<close> I/O errors of \<open>stdio\<close>: reads end at the end of input,
  \<open>fopen\<close> fails exactly for paths that are not writable (or, for reading, not in
  the file system), \<open>fwrite\<close> writes in full, \<open>fflush\<close> has no visible effect.
  \<open>printf\<close> is modelled only through the conversions the tool uses.
\<close>

end
